(* ===== verification/Prelude.thy ===== *)
theory Prelude
  imports Main "HOL-Library.Word"
begin

unbundle bit_operations_syntax

text \<open>
  Shared vocabulary of the development: the machine types of the C sources, the result
  type of kernel operations (a value, or one of the ways in which the C function does
  not return to its caller), sequencing of operations, a small Hoare logic over it, and
  the generic facts on lists, options and words that the component theories share.
\<close>

section \<open>Machine types\<close>

text \<open>
  \<open>uint\<close>, \<open>ushort\<close> and \<open>uchar\<close> of types.h are words of their width on the 32-bit x86
  target, and so are pointers.  C \<open>int\<close> variables that only count objects are \<open>int\<close>.
\<close>

type_synonym uchar = "8 word"
type_synonym ushort = "16 word"
type_synonym uint = "32 word"
type_synonym addr = "32 word"
type_synonym memory = "addr \<Rightarrow> uchar"

section \<open>Outcomes of kernel operations\<close>

text \<open>
  A kernel function returns a value in a new state, or control does not come back:
  it panics; it gives the CPU to the scheduler (\<open>swtch\<close> inside \<open>sched\<close>), leaving the state
  in which the scheduler continues; it spins on a lock that another CPU holds; or it uses
  a null or dangling pointer, where the C program has no defined behaviour.
\<close>

datatype 's halt =
    Panic string
  | Swtch 's
  | Spin
  | Fault string

datatype ('a, 's) res = Ok 'a 's | Stop "'s halt"

type_synonym ('s, 'a) kop = "'s \<Rightarrow> ('a, 's) res"

definition ret :: "'a \<Rightarrow> ('s, 'a) kop" where
  "ret a = (\<lambda>s. Ok a s)"

definition bnd :: "('s, 'a) kop \<Rightarrow> ('a \<Rightarrow> ('s, 'b) kop) \<Rightarrow> ('s, 'b) kop" where
  "bnd f g = (\<lambda>s. case f s of Ok a t \<Rightarrow> g a t | Stop h \<Rightarrow> Stop h)"

definition seq :: "('s, 'a) kop \<Rightarrow> ('s, 'b) kop \<Rightarrow> ('s, 'b) kop" where
  "seq f g = bnd f (\<lambda>_. g)"

definition panic :: "string \<Rightarrow> ('s, 'a) kop" where
  "panic msg = (\<lambda>s. Stop (Panic msg))"

definition fault :: "string \<Rightarrow> ('s, 'a) kop" where
  "fault msg = (\<lambda>s. Stop (Fault msg))"

definition spin :: "('s, 'a) kop" where
  "spin = (\<lambda>s. Stop Spin)"

definition gets :: "('s \<Rightarrow> 'a) \<Rightarrow> ('s, 'a) kop" where
  "gets f = (\<lambda>s. Ok (f s) s)"

definition modify :: "('s \<Rightarrow> 's) \<Rightarrow> ('s, unit) kop" where
  "modify f = (\<lambda>s. Ok () (f s))"

definition whenM :: "bool \<Rightarrow> ('s, unit) kop \<Rightarrow> ('s, unit) kop" where
  "whenM b f = (if b then f else ret ())"

fun forM :: "'b list \<Rightarrow> ('b \<Rightarrow> ('s, unit) kop) \<Rightarrow> ('s, unit) kop" where
  "forM [] f = ret ()"
| "forM (x # xs) f = seq (f x) (forM xs f)"

text \<open>
  A C loop over a list of values whose body may return from the function: the body's value
  is \<open>Some r\<close> for \<open>return r\<close> and \<open>None\<close> to go on with the next iteration.
\<close>

fun loopE :: "'b list \<Rightarrow> ('b \<Rightarrow> ('s, 'r option) kop) \<Rightarrow> ('s, 'r option) kop" where
  "loopE [] f = ret None"
| "loopE (x # xs) f =
     bnd (f x) (\<lambda>r. case r of Some v \<Rightarrow> ret (Some v) | None \<Rightarrow> loopE xs f)"

named_theorems kop_simps \<open>evaluation of sequenced operations\<close>

lemma ret_apply [kop_simps, simp]: "ret a s = Ok a s"
  by (simp add: ret_def)

lemma bnd_apply [kop_simps]:
  "bnd f g s = (case f s of Ok a t \<Rightarrow> g a t | Stop h \<Rightarrow> Stop h)"
  by (simp add: bnd_def)

lemma seq_apply [kop_simps]:
  "seq f g s = (case f s of Ok a t \<Rightarrow> g t | Stop h \<Rightarrow> Stop h)"
  by (simp add: seq_def bnd_def)

lemma panic_apply [kop_simps, simp]: "panic m s = Stop (Panic m)"
  by (simp add: panic_def)

lemma fault_apply [kop_simps, simp]: "fault m s = Stop (Fault m)"
  by (simp add: fault_def)

lemma spin_apply [kop_simps, simp]: "spin s = Stop Spin"
  by (simp add: spin_def)

lemma gets_apply [kop_simps, simp]: "gets f s = Ok (f s) s"
  by (simp add: gets_def)

lemma modify_apply [kop_simps, simp]: "modify f s = Ok () (f s)"
  by (simp add: modify_def)

lemma whenM_apply [kop_simps]: "whenM b f s = (if b then f s else Ok () s)"
  by (simp add: whenM_def)

lemma bnd_Ok [simp]: "f s = Ok a t \<Longrightarrow> bnd f g s = g a t"
  by (simp add: bnd_def)

lemma seq_Ok [simp]: "f s = Ok a t \<Longrightarrow> seq f g s = g t"
  by (simp add: seq_apply)

lemma bnd_Stop [simp]: "f s = Stop h \<Longrightarrow> bnd f g s = Stop h"
  by (simp add: bnd_def)

lemma seq_Stop [simp]: "f s = Stop h \<Longrightarrow> seq f g s = Stop h"
  by (simp add: seq_apply)

lemma bnd_OkE:
  assumes "bnd f g s = Ok b u"
  obtains a t where "f s = Ok a t" and "g a t = Ok b u"
  using assms by (auto simp: bnd_def split: res.splits)

lemma seq_OkE:
  assumes "seq f g s = Ok b u"
  obtains a t where "f s = Ok a t" and "g t = Ok b u"
  using assms by (auto simp: seq_apply split: res.splits)

lemma seq_assoc: "seq (seq f g) h = seq f (seq g h)"
  by (rule ext) (simp add: seq_apply split: res.split)

lemma forM_append: "forM (xs @ ys) f = seq (forM xs f) (forM ys f)"
proof (induction xs)
  case Nil
  show ?case by (rule ext) (simp add: seq_apply)
next
  case (Cons x xs)
  then show ?case by (simp add: seq_assoc)
qed

lemma forM_snoc: "forM (xs @ [x]) f s = (case forM xs f s of Ok _ t \<Rightarrow> f x t | Stop h \<Rightarrow> Stop h)"
  by (simp add: forM_append seq_apply ret_def split: res.split)

section \<open>A Hoare logic of operations\<close>

text \<open>
  \<open>hoare P f Q H\<close>: from a state with \<open>P\<close>, \<open>f\<close> returns a value and a state with \<open>Q\<close>, or
  stops in a way that \<open>H\<close> allows.  \<open>H = no_halt\<close> is total correctness.
\<close>

definition hoare ::
  "('s \<Rightarrow> bool) \<Rightarrow> ('s, 'a) kop \<Rightarrow> ('a \<Rightarrow> 's \<Rightarrow> bool) \<Rightarrow> ('s halt \<Rightarrow> bool) \<Rightarrow> bool" where
  "hoare P f Q H \<longleftrightarrow>
     (\<forall>s. P s \<longrightarrow> (case f s of Ok a t \<Rightarrow> Q a t | Stop h \<Rightarrow> H h))"

definition no_halt :: "'s halt \<Rightarrow> bool" where
  "no_halt h = False"

definition any_halt :: "'s halt \<Rightarrow> bool" where
  "any_halt h = True"

named_theorems hoare_intros \<open>rules of the Hoare logic and of the component operations\<close>

lemma hoareI:
  assumes "\<And>s a t. P s \<Longrightarrow> f s = Ok a t \<Longrightarrow> Q a t"
    and "\<And>s h. P s \<Longrightarrow> f s = Stop h \<Longrightarrow> H h"
  shows "hoare P f Q H"
  using assms by (auto simp: hoare_def split: res.splits)

lemma hoare_Ok: "hoare P f Q H \<Longrightarrow> P s \<Longrightarrow> f s = Ok a t \<Longrightarrow> Q a t"
  by (auto simp: hoare_def split: res.splits)

lemma hoare_Stop: "hoare P f Q H \<Longrightarrow> P s \<Longrightarrow> f s = Stop h \<Longrightarrow> H h"
  by (auto simp: hoare_def split: res.splits)

lemma hoare_total:
  assumes "hoare P f Q no_halt" and "P s"
  obtains a t where "f s = Ok a t" and "Q a t"
  using assms by (cases "f s") (auto simp: hoare_def no_halt_def split: res.splits)

lemma hoare_ret [hoare_intros]: "hoare (Q a) (ret a) Q H"
  by (simp add: hoare_def)

lemma hoare_bnd [hoare_intros]:
  assumes "hoare P f R H" and "\<And>a. hoare (R a) (g a) Q H"
  shows "hoare P (bnd f g) Q H"
  using assms by (fastforce simp: hoare_def bnd_def split: res.splits)

lemma hoare_seq [hoare_intros]:
  assumes "hoare P f (\<lambda>_. R) H" and "hoare R g Q H"
  shows "hoare P (seq f g) Q H"
  unfolding seq_def by (rule hoare_bnd [OF assms(1)]) (rule assms(2))

lemma hoare_gets [hoare_intros]: "hoare (\<lambda>s. Q (f s) s) (gets f) Q H"
  by (simp add: hoare_def)

lemma hoare_modify [hoare_intros]: "hoare (\<lambda>s. Q () (f s)) (modify f) Q H"
  by (simp add: hoare_def)

lemma hoare_panic [hoare_intros]: "hoare (\<lambda>s. H (Panic m)) (panic m) Q H"
  by (simp add: hoare_def)

lemma hoare_fault [hoare_intros]: "hoare (\<lambda>s. H (Fault m)) (fault m) Q H"
  by (simp add: hoare_def)

lemma hoare_spin [hoare_intros]: "hoare (\<lambda>s. H Spin) spin Q H"
  by (simp add: hoare_def)

lemma hoare_if [hoare_intros]:
  assumes "b \<Longrightarrow> hoare P f Q H" and "\<not> b \<Longrightarrow> hoare P' g Q H"
  shows "hoare (\<lambda>s. if b then P s else P' s) (if b then f else g) Q H"
  using assms by (auto simp: hoare_def)

lemma hoare_weaken:
  assumes "hoare P f Q H" and "\<And>s. P' s \<Longrightarrow> P s"
    and "\<And>a s. Q a s \<Longrightarrow> Q' a s" and "\<And>h. H h \<Longrightarrow> H' h"
  shows "hoare P' f Q' H'"
  using assms by (intro hoareI) (blast dest: hoare_Ok hoare_Stop)+

lemma hoare_conj:
  assumes "hoare P f Q H" and "hoare P' f Q' H'"
  shows "hoare (\<lambda>s. P s \<and> P' s) f (\<lambda>a s. Q a s \<and> Q' a s) (\<lambda>h. H h \<and> H' h)"
  using assms by (fastforce simp: hoare_def split: res.splits)

text \<open>A loop over a list keeps what each iteration keeps.\<close>

lemma hoare_forM [hoare_intros]:
  assumes "\<And>x. x \<in> set xs \<Longrightarrow> hoare I (f x) (\<lambda>_. I) H"
  shows "hoare I (forM xs f) (\<lambda>_. I) H"
  using assms
proof (induction xs)
  case Nil
  then show ?case by (simp add: hoare_def)
next
  case (Cons x xs)
  then have "hoare I (f x) (\<lambda>_. I) H" and "hoare I (forM xs f) (\<lambda>_. I) H"
    by auto
  then show ?case unfolding forM.simps by (rule hoare_seq)
qed

lemma hoare_loopE [hoare_intros]:
  assumes "\<And>x. x \<in> set xs \<Longrightarrow> hoare I (f x) (\<lambda>r s. case r of None \<Rightarrow> I s | Some v \<Rightarrow> Q v s) H"
  shows "hoare I (loopE xs f) (\<lambda>r s. case r of None \<Rightarrow> I s | Some v \<Rightarrow> Q v s) H"
  using assms
proof (induction xs)
  case Nil
  then show ?case by (simp add: hoare_def)
next
  case (Cons x xs)
  then have f: "hoare I (f x) (\<lambda>r s. case r of None \<Rightarrow> I s | Some v \<Rightarrow> Q v s) H"
    and rest: "hoare I (loopE xs f) (\<lambda>r s. case r of None \<Rightarrow> I s | Some v \<Rightarrow> Q v s) H"
    by auto
  have "hoare (\<lambda>s. case r of None \<Rightarrow> I s | Some v \<Rightarrow> Q v s)
      (case r of Some v \<Rightarrow> ret (Some v) | None \<Rightarrow> loopE xs f)
      (\<lambda>r s. case r of None \<Rightarrow> I s | Some v \<Rightarrow> Q v s) H" for r
    by (cases r) (use rest in \<open>simp_all add: hoare_def\<close>)
  then show ?case unfolding loopE.simps by (rule hoare_bnd [OF f])
qed

section \<open>Lists\<close>

text \<open>The index of the first element with a property: the \<open>for\<close> loops that search a table.\<close>

fun find_index :: "('a \<Rightarrow> bool) \<Rightarrow> 'a list \<Rightarrow> nat option" where
  "find_index p [] = None"
| "find_index p (x # xs) = (if p x then Some 0 else map_option Suc (find_index p xs))"

lemma find_index_None_iff: "find_index p xs = None \<longleftrightarrow> (\<forall>x \<in> set xs. \<not> p x)"
  by (induction xs) auto

lemma find_index_SomeD:
  "find_index p xs = Some i \<Longrightarrow> i < length xs \<and> p (xs ! i) \<and> (\<forall>j < i. \<not> p (xs ! j))"
proof (induction xs arbitrary: i)
  case Nil
  then show ?case by simp
next
  case (Cons x xs)
  show ?case
  proof (cases "p x")
    case True
    with Cons.prems show ?thesis by simp
  next
    case False
    with Cons.prems obtain k where k: "find_index p xs = Some k" "i = Suc k"
      by auto
    with Cons.IH [of k] False show ?thesis
      by (auto simp: less_Suc_eq_0_disj)
  qed
qed

lemma find_index_Some_iff:
  "find_index p xs = Some i \<longleftrightarrow>
     i < length xs \<and> p (xs ! i) \<and> (\<forall>j < i. \<not> p (xs ! j))"
proof
  assume "i < length xs \<and> p (xs ! i) \<and> (\<forall>j < i. \<not> p (xs ! j))"
  then show "find_index p xs = Some i"
  proof (induction xs arbitrary: i)
    case Nil
    then show ?case by simp
  next
    case (Cons x xs)
    show ?case
    proof (cases i)
      case 0
      with Cons.prems show ?thesis by simp
    next
      case (Suc k)
      with Cons.prems have "\<not> p x" by (metis nth_Cons_0 zero_less_Suc)
      moreover have "find_index p xs = Some k"
        using Cons.prems Suc by (intro Cons.IH) auto
      ultimately show ?thesis using Suc by simp
    qed
  qed
qed (rule find_index_SomeD)

lemma find_index_exists: "x \<in> set xs \<Longrightarrow> p x \<Longrightarrow> \<exists>i. find_index p xs = Some i"
  by (metis find_index_None_iff not_None_eq)

lemma find_SomeD: "find p xs = Some x \<Longrightarrow> x \<in> set xs \<and> p x"
  by (auto simp: find_Some_iff)

lemma nth_update_conv:
  "i < length xs \<Longrightarrow> (xs[j := v]) ! i = (if i = j then v else xs ! i)"
  by (simp add: nth_list_update)

end
