(* ===== verification/Layout.thy ===== *)
theory Layout
  imports Prelude
begin

unbundle bit_operations_syntax

text \<open>
  The constants and address macros of param.h, memlayout.h and mmu.h, and the arithmetic
  facts on pages that the allocator and the page tables rely on.
\<close>

section \<open>param.h\<close>

definition NPROC :: nat where "NPROC = 64"
definition KSTACKSIZE :: uint where "KSTACKSIZE = 4096"
definition NCPU :: nat where "NCPU = 8"
definition NOFILE :: nat where "NOFILE = 16"
definition NFILE :: nat where "NFILE = 100"
definition NBUF :: nat where "NBUF = 10"
definition NINODE :: nat where "NINODE = 50"
definition NDEV :: nat where "NDEV = 10"
definition ROOTDEV :: uint where "ROOTDEV = 1"
definition MAXARG :: nat where "MAXARG = 32"
definition LOGSIZE :: nat where "LOGSIZE = 10"

section \<open>memlayout.h\<close>

definition EXTMEM :: uint where "EXTMEM = 0x100000"
definition PHYSTOP :: uint where "PHYSTOP = 0xE000000"
definition DEVSPACE :: uint where "DEVSPACE = 0xFE000000"
definition KERNBASE :: uint where "KERNBASE = 0x80000000"
definition KERNLINK :: uint where "KERNLINK = KERNBASE + EXTMEM"

definition v2p :: "addr \<Rightarrow> uint" where "v2p a = a - KERNBASE"
definition p2v :: "uint \<Rightarrow> addr" where "p2v a = a + KERNBASE"

section \<open>mmu.h\<close>

definition PGSIZE :: uint where "PGSIZE = 4096"
definition NPDENTRIES :: nat where "NPDENTRIES = 1024"
definition NPTENTRIES :: nat where "NPTENTRIES = 1024"

definition PTE_P :: uint where "PTE_P = 0x001"
definition PTE_W :: uint where "PTE_W = 0x002"
definition PTE_U :: uint where "PTE_U = 0x004"

definition PDX :: "addr \<Rightarrow> uint" where "PDX va = drop_bit 22 va AND 0x3FF"
definition PTX :: "addr \<Rightarrow> uint" where "PTX va = drop_bit 12 va AND 0x3FF"

definition PGADDR :: "uint \<Rightarrow> uint \<Rightarrow> uint \<Rightarrow> addr" where
  "PGADDR d t off = push_bit 22 d OR push_bit 12 t OR off"

definition PGROUNDUP :: "uint \<Rightarrow> uint" where
  "PGROUNDUP sz = (sz + PGSIZE - 1) AND NOT (PGSIZE - 1)"

definition PGROUNDDOWN :: "uint \<Rightarrow> uint" where
  "PGROUNDDOWN a = a AND NOT (PGSIZE - 1)"

definition PTE_ADDR :: "uint \<Rightarrow> uint" where "PTE_ADDR pte = pte AND NOT 0xFFF"
definition PTE_FLAGS :: "uint \<Rightarrow> uint" where "PTE_FLAGS pte = pte AND 0xFFF"

definition FL_IF :: uint where "FL_IF = 0x200"
definition SEG_KCODE :: uint where "SEG_KCODE = 1"
definition SEG_KDATA :: uint where "SEG_KDATA = 2"
definition SEG_KCPU :: uint where "SEG_KCPU = 3"
definition SEG_UCODE :: uint where "SEG_UCODE = 4"
definition SEG_UDATA :: uint where "SEG_UDATA = 5"
definition SEG_TSS :: uint where "SEG_TSS = 6"
definition DPL_USER :: uint where "DPL_USER = 3"

lemmas param_defs = NPROC_def KSTACKSIZE_def NCPU_def NOFILE_def NFILE_def NBUF_def NINODE_def
  NDEV_def ROOTDEV_def MAXARG_def LOGSIZE_def

lemmas layout_defs = EXTMEM_def PHYSTOP_def DEVSPACE_def KERNBASE_def KERNLINK_def

section \<open>Facts on pages\<close>

lemma v2p_p2v [simp]: "v2p (p2v a) = a"
  by (simp add: v2p_def p2v_def)

lemma p2v_v2p [simp]: "p2v (v2p a) = a"
  by (simp add: v2p_def p2v_def)

text \<open>The offset of an address in its page, and the two roundings, in terms of \<open>mod\<close>.\<close>

lemma page_mask: "NOT (PGSIZE - 1) = NOT (mask 12 :: uint)"
  by (simp add: PGSIZE_def mask_eq_exp_minus_1)

lemma and_not_mask_eq: "(a :: uint) AND NOT (mask n) = push_bit n (drop_bit n a)"
  by (rule bit_word_eqI) (auto simp: bit_simps)

lemma unat_and_not_mask: "unat ((a :: uint) AND NOT (mask n)) = unat a div 2 ^ n * 2 ^ n"
proof -
  have "unat a div 2 ^ n * 2 ^ n < 2 ^ 32"
    using unsigned_less [of a, where 'a = nat] by (simp add: le_less_trans [OF div_times_less_eq_dividend])
  then show ?thesis
    using unsigned_less [of a, where 'a = nat]
    unfolding and_not_mask_eq unsigned_push_bit_eq unsigned_drop_bit_eq
    by (simp add: drop_bit_eq_div push_bit_eq_mult take_bit_eq_mod)
qed

lemma unat_PGROUNDDOWN: "unat (PGROUNDDOWN a) = unat a div 4096 * 4096"
  using unat_and_not_mask [of a 12] by (simp add: PGROUNDDOWN_def page_mask)

lemma unat_PGROUNDUP:
  assumes "unat a + 4095 < 2 ^ 32"
  shows "unat (PGROUNDUP a) = (unat a + 4095) div 4096 * 4096"
proof -
  have "unat (a + 4095) = unat a + 4095"
    using assms by (simp add: unat_word_ariths)
  then show ?thesis
    using unat_and_not_mask [of "a + 4095" 12]
    by (simp add: PGROUNDUP_def page_mask) (simp add: PGSIZE_def add.commute)
qed

lemma unat_mod_PGSIZE: "unat (a mod PGSIZE) = unat a mod 4096"
  by (simp add: PGSIZE_def unat_mod)

lemma page_aligned_iff: "a mod PGSIZE = 0 \<longleftrightarrow> unat a mod 4096 = 0"
  by (metis unat_eq_zero unat_mod_PGSIZE)

lemma PGROUNDDOWN_aligned: "PGROUNDDOWN a mod PGSIZE = 0"
  by (simp add: page_aligned_iff unat_PGROUNDDOWN)

lemma PGROUNDUP_aligned: "PGROUNDUP a mod PGSIZE = 0"
  using unat_and_not_mask [of "a + PGSIZE - 1" 12]
  by (simp add: page_aligned_iff PGROUNDUP_def page_mask)

lemma unat_page_offset: "unat (a - PGROUNDDOWN a) = unat a mod 4096"
proof -
  have "unat a div 4096 * 4096 \<le> unat a" by simp
  then show ?thesis
    by (simp add: unat_sub_if' unat_PGROUNDDOWN minus_div_mult_eq_mod)
qed

lemma PGROUNDDOWN_of_aligned: "a mod PGSIZE = 0 \<Longrightarrow> PGROUNDDOWN a = a"
  by (auto simp: word_unat_eq_iff unat_PGROUNDDOWN unat_mod_PGSIZE)

lemma PTE_ADDR_flags: "PTE_ADDR pte OR PTE_FLAGS pte = pte"
  by (rule bit_word_eqI) (auto simp: PTE_ADDR_def PTE_FLAGS_def bit_simps)

text \<open>
  C24 (address split). The directory index, the table index and the page offset of an
  address identify it: \<open>PGADDR\<close> puts them together again, and the indices are in range.
\<close>

theorem PGADDR_split:
  "PGADDR (PDX va) (PTX va) (va AND 0xFFF) = va \<and> unat (PDX va) < NPDENTRIES \<and> unat (PTX va) < NPTENTRIES"
proof -
  have m10: "(0x3FF :: uint) = mask 10" and m12: "(0xFFF :: uint) = mask 12"
    by (simp_all add: mask_eq_exp_minus_1)
  have "PGADDR (PDX va) (PTX va) (va AND 0xFFF) = va"
    unfolding PGADDR_def PDX_def PTX_def m10 m12
  proof (rule bit_word_eqI)
    fix n
    assume "n < LENGTH(32)"
    then show "bit (push_bit 22 (drop_bit 22 va AND mask 10) OR
        push_bit 12 (drop_bit 12 va AND mask 10) OR va AND mask 12) n \<longleftrightarrow> bit va n"
      by (cases "n < 12"; cases "n < 22") (auto simp: bit_simps)
  qed
  moreover have "unat (x AND mask 10) < 1024" for x :: uint
    using take_bit_nat_less_exp [of 10 "unat x"]
    by (simp add: take_bit_eq_mask [symmetric] unsigned_take_bit_eq)
  ultimately show ?thesis
    by (simp add: PDX_def PTX_def m10 NPDENTRIES_def NPTENTRIES_def)
qed

end
