(* ===== verification/Spinlock.thy ===== *)
theory Spinlock
  imports Layout
begin

unbundle bit_operations_syntax

text \<open>
  spinlock.c and the per-CPU record of proc.h.  The base of the kernel state holds the
  CPUs, the CPU that executes (\<open>me\<close>, the \<open>%gs\<close>-relative variable \<open>cpu\<close> of proc.h) and
  the spin locks.  Later theories extend this record field by field, so every operation
  here runs unchanged on the larger states.

  \<open>pcs\<close>, the call stack that \<open>acquire\<close> stores for debugging, is not part of the state;
  \<open>getcallerpcs\<close> itself is modelled over a memory.
\<close>

section \<open>State\<close>

text \<open>
  \<open>struct cpu\<close>: \<open>iflag\<close> is the FL_IF bit of the CPU's EFLAGS register; \<open>intena\<close> is
  only tested for being non-zero; \<open>cproc\<close> is the index in the process table of the
  process that runs on the CPU (\<open>None\<close> for the null pointer); \<open>cr3\<close> and \<open>esp0\<close> are the
  page table register and the kernel stack of the task state segment.
\<close>

record cpu =
  cpuid :: nat
  ncli :: int
  intena :: bool
  iflag :: bool
  cproc :: "nat option"
  cr3 :: uint
  esp0 :: uint

record spinlock =
  locked :: uint
  lkname :: string
  lkcpu :: "nat option"

text \<open>The locks of the kernel; a pipe's lock lives in its page, so it is named by the page.\<close>

datatype lockid =
    KmemLock | PtableLock | BcacheLock | IdeLock | LogLock | IcacheLock | FtableLock
  | TicksLock | ConsLock | InputLock | PipeLock addr

record kcore =
  me :: nat
  cpus :: "nat \<Rightarrow> cpu"
  locks :: "lockid \<Rightarrow> spinlock"

definition mycpu :: "'e kcore_scheme \<Rightarrow> cpu" where
  "mycpu s = cpus s (me s)"

definition set_mycpu :: "(cpu \<Rightarrow> cpu) \<Rightarrow> 'e kcore_scheme \<Rightarrow> 'e kcore_scheme" where
  "set_mycpu f s = s\<lparr>cpus := (cpus s)(me s := f (cpus s (me s)))\<rparr>"

definition set_lock :: "lockid \<Rightarrow> (spinlock \<Rightarrow> spinlock) \<Rightarrow> 'e kcore_scheme \<Rightarrow> 'e kcore_scheme" where
  "set_lock lk f s = s\<lparr>locks := (locks s)(lk := f (locks s lk))\<rparr>"

section \<open>Operations\<close>

definition initlock :: "lockid \<Rightarrow> string \<Rightarrow> ('e kcore_scheme, unit) kop" where
  "initlock lk name =
     modify (set_lock lk (\<lambda>l. l\<lparr>lkname := name, locked := 0, lkcpu := None\<rparr>))"

definition readeflags_if :: "('e kcore_scheme, bool) kop" where
  "readeflags_if = gets (\<lambda>s. iflag (mycpu s))"

definition cli :: "('e kcore_scheme, unit) kop" where
  "cli = modify (set_mycpu (\<lambda>c. c\<lparr>iflag := False\<rparr>))"

definition sti :: "('e kcore_scheme, unit) kop" where
  "sti = modify (set_mycpu (\<lambda>c. c\<lparr>iflag := True\<rparr>))"

definition pushcli :: "('e kcore_scheme, unit) kop" where
  "pushcli =
     bnd readeflags_if (\<lambda>eflags.
     seq cli
     (bnd (gets (\<lambda>s. ncli (mycpu s))) (\<lambda>n.
      seq (modify (set_mycpu (\<lambda>c. c\<lparr>ncli := ncli c + 1\<rparr>)))
          (whenM (n = 0) (modify (set_mycpu (\<lambda>c. c\<lparr>intena := eflags\<rparr>)))))))"

definition popcli :: "('e kcore_scheme, unit) kop" where
  "popcli =
     bnd readeflags_if (\<lambda>eflags.
     if eflags then panic ''popcli - interruptible''
     else
       seq (modify (set_mycpu (\<lambda>c. c\<lparr>ncli := ncli c - 1\<rparr>)))
       (bnd (gets mycpu) (\<lambda>c.
        if ncli c < 0 then panic ''popcli''
        else whenM (ncli c = 0 \<and> intena c) sti)))"

definition holding :: "lockid \<Rightarrow> 'e kcore_scheme \<Rightarrow> bool" where
  "holding lk s \<longleftrightarrow> locked (locks s lk) \<noteq> 0 \<and> lkcpu (locks s lk) = Some (me s)"

definition xchg_locked :: "lockid \<Rightarrow> uint \<Rightarrow> ('e kcore_scheme, uint) kop" where
  "xchg_locked lk newval =
     bnd (gets (\<lambda>s. locked (locks s lk))) (\<lambda>old.
     seq (modify (set_lock lk (\<lambda>l. l\<lparr>locked := newval\<rparr>))) (ret old))"

text \<open>
  The loop \<open>while(xchg(&lk->locked, 1) != 0)\<close> leaves at once when the lock is free.
  Otherwise only another CPU can end it, so this CPU spins.
\<close>

definition acquire :: "lockid \<Rightarrow> ('e kcore_scheme, unit) kop" where
  "acquire lk =
     seq pushcli
     (bnd (gets (holding lk)) (\<lambda>h.
      if h then panic ''acquire in spinlock.c''
      else
        bnd (xchg_locked lk 1) (\<lambda>old.
        if old \<noteq> 0 then spin
        else modify (\<lambda>s. set_lock lk (\<lambda>l. l\<lparr>lkcpu := Some (me s)\<rparr>) s))))"

definition release :: "lockid \<Rightarrow> ('e kcore_scheme, unit) kop" where
  "release lk =
     bnd (gets (holding lk)) (\<lambda>h.
     if \<not> h then panic ''release in spinlock.c''
     else
       seq (modify (set_lock lk (\<lambda>l. l\<lparr>lkcpu := None\<rparr>)))
       (seq (xchg_locked lk 0) popcli))"

text \<open>
  \<open>getcallerpcs\<close>: follow the chain of saved frame pointers, at most ten frames.
  \<open>ld\<close> reads a word of memory.
\<close>

fun callerpcs_from :: "(addr \<Rightarrow> uint) \<Rightarrow> nat \<Rightarrow> addr \<Rightarrow> uint list" where
  "callerpcs_from ld 0 ebp = []"
| "callerpcs_from ld (Suc n) ebp =
     (if ebp = 0 \<or> ebp < KERNBASE \<or> ebp = 0xffffffff then replicate (Suc n) 0
      else ld (ebp + 4) # callerpcs_from ld n (ld ebp))"

definition getcallerpcs :: "(addr \<Rightarrow> uint) \<Rightarrow> addr \<Rightarrow> uint list" where
  "getcallerpcs ld v = callerpcs_from ld 10 (v - 8)"

section \<open>Evaluation of lock operations\<close>

text \<open>
  \<open>idle lk s\<close>: the lock is free, as \<open>initlock\<close> and \<open>release\<close> leave it.  \<open>cli_wf\<close>: what
  pushcli and popcli keep of the executing CPU: interrupts are off while it is nested.
\<close>

definition idle :: "lockid \<Rightarrow> 'e kcore_scheme \<Rightarrow> bool" where
  "idle lk s \<longleftrightarrow> locked (locks s lk) = 0 \<and> lkcpu (locks s lk) = None"

definition cli_wf :: "'e kcore_scheme \<Rightarrow> bool" where
  "cli_wf s \<longleftrightarrow> 0 \<le> ncli (mycpu s) \<and> (0 < ncli (mycpu s) \<longrightarrow> \<not> iflag (mycpu s))"

definition pushed :: "cpu \<Rightarrow> cpu" where
  "pushed c = c\<lparr>ncli := ncli c + 1, iflag := False,
                intena := (if ncli c = 0 then iflag c else intena c)\<rparr>"

definition popped :: "cpu \<Rightarrow> cpu" where
  "popped c = c\<lparr>ncli := ncli c - 1, iflag := (ncli c = 1 \<and> intena c)\<rparr>"

text \<open>
  \<open>settle\<close> is all that a lock acquired and released again leaves behind: at depth 0,
  \<open>intena\<close> remembers the interrupt flag that \<open>pushcli\<close> saw.
\<close>

definition settle :: "cpu \<Rightarrow> cpu" where
  "settle c = (if ncli c = 0 then c\<lparr>intena := iflag c\<rparr> else c)"

definition taken :: "lockid \<Rightarrow> 'e kcore_scheme \<Rightarrow> 'e kcore_scheme" where
  "taken lk s = set_lock lk (\<lambda>l. l\<lparr>locked := 1, lkcpu := Some (me s)\<rparr>) (set_mycpu pushed s)"

definition given :: "lockid \<Rightarrow> 'e kcore_scheme \<Rightarrow> 'e kcore_scheme" where
  "given lk s = set_mycpu popped (set_lock lk (\<lambda>l. l\<lparr>locked := 0, lkcpu := None\<rparr>) s)"

lemmas core_defs = mycpu_def set_mycpu_def set_lock_def

lemma set_mycpu_comp: "set_mycpu f (set_mycpu g s) = set_mycpu (\<lambda>c. f (g c)) s"
  by (simp add: set_mycpu_def)

lemma set_lock_comp: "set_lock lk f (set_lock lk g s) = set_lock lk (\<lambda>l. f (g l)) s"
  by (simp add: set_lock_def)

lemma mycpu_set_mycpu [simp]: "mycpu (set_mycpu f s) = f (mycpu s)"
  by (simp add: core_defs)

lemma mycpu_set_lock [simp]: "mycpu (set_lock lk f s) = mycpu s"
  by (simp add: core_defs)

lemma set_mycpu_cong: "f (mycpu s) = g (mycpu s) \<Longrightarrow> set_mycpu f s = set_mycpu g s"
  by (simp add: core_defs)

lemma set_lock_cong: "f (locks s lk) = g (locks s lk) \<Longrightarrow> set_lock lk f s = set_lock lk g s"
  by (simp add: core_defs)

lemma pushcli_eq: "pushcli s = Ok () (set_mycpu pushed s)"
  by (auto simp: pushcli_def readeflags_if_def cli_def kop_simps set_mycpu_comp pushed_def
      intro!: set_mycpu_cong cpu.equality)

lemma popcli_eq:
  assumes "\<not> iflag (mycpu s)" and "0 < ncli (mycpu s)"
  shows "popcli s = Ok () (set_mycpu popped s)"
  using assms
  by (auto simp: popcli_def readeflags_if_def sti_def kop_simps set_mycpu_comp popped_def
      intro!: set_mycpu_cong cpu.equality)

lemma acquire_eq:
  assumes "idle lk s"
  shows "acquire lk s = Ok () (taken lk s)"
  using assms
  by (simp add: acquire_def pushcli_eq holding_def xchg_locked_def idle_def taken_def core_defs
      kop_simps)

lemma release_eq:
  assumes "holding lk s" and "\<not> iflag (mycpu s)" and "0 < ncli (mycpu s)"
  shows "release lk s = Ok () (given lk s)"
proof -
  let ?t = "set_lock lk (\<lambda>l. l\<lparr>lkcpu := None, locked := 0\<rparr>) s"
  have "popcli ?t = Ok () (set_mycpu popped ?t)"
    using assms by (intro popcli_eq) simp_all
  moreover have "?t = set_lock lk (\<lambda>l. l\<lparr>locked := 0, lkcpu := None\<rparr>) s"
    by (intro set_lock_cong spinlock.equality) simp_all
  ultimately show ?thesis
    using assms by (simp add: release_def xchg_locked_def given_def set_lock_comp kop_simps)
qed

definition settled :: "'e kcore_scheme \<Rightarrow> 'e kcore_scheme" where
  "settled s = set_mycpu settle s"

lemma taken_simps [simp]:
  "holding lk (taken lk s)"
  "me (taken lk s) = me s"
  "mycpu (taken lk s) = pushed (mycpu s)"
  "lk' \<noteq> lk \<Longrightarrow> locks (taken lk s) lk' = locks s lk'"
  "lk' \<noteq> lk \<Longrightarrow> idle lk' (taken lk s) = idle lk' s"
  "lk' \<noteq> lk \<Longrightarrow> holding lk' (taken lk s) = holding lk' s"
  by (simp_all add: taken_def core_defs holding_def idle_def)

lemma given_simps [simp]:
  "me (given lk s) = me s"
  "mycpu (given lk s) = popped (mycpu s)"
  "idle lk (given lk s)"
  "lk' \<noteq> lk \<Longrightarrow> locks (given lk s) lk' = locks s lk'"
  "lk' \<noteq> lk \<Longrightarrow> idle lk' (given lk s) = idle lk' s"
  "lk' \<noteq> lk \<Longrightarrow> holding lk' (given lk s) = holding lk' s"
  by (simp_all add: given_def core_defs holding_def idle_def)

lemma settled_simps [simp]:
  "me (settled s) = me s"
  "locks (settled s) = locks s"
  "mycpu (settled s) = settle (mycpu s)"
  "idle lk (settled s) = idle lk s"
  "holding lk (settled s) = holding lk s"
  "ncli (settle c) = ncli c"
  "iflag (settle c) = iflag c"
  "cproc (settle c) = cproc c"
  by (simp_all add: settled_def settle_def core_defs holding_def idle_def)

lemma pushed_simps [simp]:
  "ncli (pushed c) = ncli c + 1"
  "\<not> iflag (pushed c)"
  "cproc (pushed c) = cproc c"
  "cpuid (pushed c) = cpuid c"
  "cr3 (pushed c) = cr3 c"
  "esp0 (pushed c) = esp0 c"
  by (simp_all add: pushed_def)

lemma popped_simps [simp]:
  "ncli (popped c) = ncli c - 1"
  "cproc (popped c) = cproc c"
  by (simp_all add: popped_def)

lemma cli_wf_taken [simp]: "cli_wf s \<Longrightarrow> cli_wf (taken lk s)"
  by (simp add: cli_wf_def)

lemma cli_wf_settled [simp]: "cli_wf (settled s) = cli_wf s"
  by (simp add: cli_wf_def)

lemma settled_taken [simp]: "cli_wf s \<Longrightarrow> settled (taken lk s) = taken lk s"
  by (simp add: settled_def taken_def settle_def core_defs cli_wf_def)

lemma settled_idem [simp]: "settled (settled s) = settled s"
  by (simp add: settled_def set_mycpu_comp) (rule set_mycpu_cong, simp add: settle_def)

lemma given_taken:
  assumes "idle lk s" and "cli_wf s"
  shows "given lk (taken lk s) = settled s"
proof -
  have "popped (pushed (mycpu s)) = settle (mycpu s)"
    using assms(2) unfolding cli_wf_def popped_def pushed_def settle_def
    by (intro cpu.equality) auto
  moreover have "(locks s lk)\<lparr>locked := 0, lkcpu := None\<rparr> = locks s lk"
    using assms(1) unfolding idle_def by (intro spinlock.equality) auto
  ultimately show ?thesis
    by (simp add: given_def taken_def settled_def core_defs)
qed

lemma release_taken [simp]:
  assumes "idle lk s" and "cli_wf s"
  shows "release lk (taken lk s) = Ok () (settled s)"
  using assms by (subst release_eq) (simp_all add: cli_wf_def given_taken)

lemma acquire_idle [simp]: "idle lk s \<Longrightarrow> acquire lk s = Ok () (taken lk s)"
  by (rule acquire_eq)

section \<open>Interleavings of several CPUs\<close>

text \<open>
  A trace of lock operations that returned on some CPU.  A CPU executes with its own
  \<open>me\<close>; an \<open>acquire\<close> that spins takes no step, so the CPU retries it later.
\<close>

datatype lockop = Acq lockid | Rel lockid

inductive lock_run :: "kcore \<Rightarrow> (nat \<times> lockop) list \<Rightarrow> kcore \<Rightarrow> bool" where
  run_start: "lock_run s [] s"
| run_acq: "lock_run s tr t \<Longrightarrow> acquire lk (t\<lparr>me := c\<rparr>) = Ok () u \<Longrightarrow>
     lock_run s (tr @ [(c, Acq lk)]) u"
| run_rel: "lock_run s tr t \<Longrightarrow> release lk (t\<lparr>me := c\<rparr>) = Ok () u \<Longrightarrow>
     lock_run s (tr @ [(c, Rel lk)]) u"

text \<open>The CPUs inside the critical section of a lock after a trace, from the trace alone.\<close>

fun inside_step :: "(nat \<times> lockid) list \<Rightarrow> nat \<times> lockop \<Rightarrow> (nat \<times> lockid) list" where
  "inside_step held (c, Acq lk) = (c, lk) # held"
| "inside_step held (c, Rel lk) = remove1 (c, lk) held"

definition inside :: "(nat \<times> lockop) list \<Rightarrow> (nat \<times> lockid) list" where
  "inside tr = foldl inside_step [] tr"

definition locks_quiet :: "kcore \<Rightarrow> bool" where
  "locks_quiet s \<longleftrightarrow> (\<forall>lk. idle lk s) \<and> (\<forall>c. ncli (cpus s c) = 0)"

definition lock_inv :: "(nat \<times> lockid) list \<Rightarrow> kcore \<Rightarrow> bool" where
  "lock_inv held s \<longleftrightarrow>
     distinct (map snd held)
     \<and> (\<forall>c lk. (c, lk) \<in> set held \<longleftrightarrow> locked (locks s lk) \<noteq> 0 \<and> lkcpu (locks s lk) = Some c)
     \<and> (\<forall>lk. locked (locks s lk) = 0 \<longrightarrow> lkcpu (locks s lk) = None)
     \<and> (\<forall>lk. locked (locks s lk) \<noteq> 0 \<longrightarrow> lkcpu (locks s lk) \<noteq> None)
     \<and> (\<forall>c. ncli (cpus s c) = int (length (filter (\<lambda>h. fst h = c) held)))
     \<and> (\<forall>c. 0 < ncli (cpus s c) \<longrightarrow> \<not> iflag (cpus s c))"

lemma acquire_Ok_iff: "acquire lk s = Ok () u \<longleftrightarrow> locked (locks s lk) = 0 \<and> u = taken lk s"
proof (cases "locked (locks s lk) = 0")
  case True
  then have "acquire lk s = Ok () (taken lk s)"
    by (simp add: acquire_def pushcli_eq holding_def xchg_locked_def taken_def core_defs kop_simps)
  with True show ?thesis by auto
next
  case False
  then have "acquire lk s = Stop (Panic ''acquire in spinlock.c'') \<or> acquire lk s = Stop Spin"
    by (simp add: acquire_def pushcli_eq xchg_locked_def core_defs kop_simps)
  with False show ?thesis by auto
qed

lemma release_Ok_iff:
  "release lk s = Ok () u \<longleftrightarrow>
     holding lk s \<and> \<not> iflag (mycpu s) \<and> 0 < ncli (mycpu s) \<and> u = given lk s"
proof (cases "holding lk s \<and> \<not> iflag (mycpu s) \<and> 0 < ncli (mycpu s)")
  case True
  then show ?thesis using release_eq [of lk s] by auto
next
  case False
  then have "\<nexists>u. release lk s = Ok () u"
    by (auto simp: release_def xchg_locked_def popcli_def readeflags_if_def kop_simps)
  with False show ?thesis by blast
qed

lemma lock_inv_distinct: "lock_inv held s \<Longrightarrow> distinct (map snd held)"
  unfolding lock_inv_def by (elim conjE)

lemma lock_inv_holder [rule_format]:
  "lock_inv held s \<Longrightarrow>
     \<forall>c lk. (c, lk) \<in> set held \<longleftrightarrow> locked (locks s lk) \<noteq> 0 \<and> lkcpu (locks s lk) = Some c"
  unfolding lock_inv_def by (elim conjE)

lemma lock_inv_locked [rule_format]:
  "lock_inv held s \<Longrightarrow> \<forall>lk. locked (locks s lk) \<noteq> 0 \<longrightarrow> lkcpu (locks s lk) \<noteq> None"
  unfolding lock_inv_def by (elim conjE)

lemma lock_inv_ncli [rule_format]:
  "lock_inv held s \<Longrightarrow> \<forall>c. ncli (cpus s c) = int (length (filter (\<lambda>h. fst h = c) held))"
  unfolding lock_inv_def by (elim conjE)

lemma lock_inv_iflag [rule_format]:
  "lock_inv held s \<Longrightarrow> \<forall>c. 0 < ncli (cpus s c) \<longrightarrow> \<not> iflag (cpus s c)"
  unfolding lock_inv_def by (elim conjE)

lemma lock_inv_off:
  assumes "lock_inv held s" and "(c, lk) \<in> set held"
  shows "\<not> iflag (cpus s c)"
proof -
  from assms(2) have "(c, lk) \<in> set (filter (\<lambda>h. fst h = c) held)" by simp
  then have "0 < length (filter (\<lambda>h. fst h = c) held)" by (rule length_pos_if_in_set)
  then have "0 < ncli (cpus s c)" by (simp add: lock_inv_ncli [OF assms(1)])
  then show ?thesis by (rule lock_inv_iflag [OF assms(1)])
qed

lemma lock_inv_start: "locks_quiet s \<Longrightarrow> lock_inv [] s"
  by (simp add: locks_quiet_def lock_inv_def idle_def)

lemma lock_inv_acq:
  assumes "lock_inv held s" and "acquire lk (s\<lparr>me := c\<rparr>) = Ok () u"
  shows "lock_inv ((c, lk) # held) u"
proof -
  from assms(2) have free: "locked (locks s lk) = 0" and u: "u = taken lk (s\<lparr>me := c\<rparr>)"
    by (auto simp: acquire_Ok_iff)
  from assms(1) free have "\<And>d. (d, lk) \<notin> set held"
    by (auto simp: lock_inv_def)
  then have "lk \<notin> snd ` set held" by auto
  with assms(1) free show ?thesis
    unfolding lock_inv_def u taken_def core_defs pushed_def by auto
qed

lemma lock_inv_rel:
  assumes "lock_inv held s" and "release lk (s\<lparr>me := c\<rparr>) = Ok () u"
  shows "lock_inv (remove1 (c, lk) held) u"
proof -
  from assms(2) have h: "locked (locks s lk) \<noteq> 0" "lkcpu (locks s lk) = Some c"
    and pos: "0 < ncli (cpus s c)" and u: "u = given lk (s\<lparr>me := c\<rparr>)"
    by (auto simp: release_Ok_iff holding_def mycpu_def)
  from assms(1) h have mem: "(c, lk) \<in> set held" by (auto simp: lock_inv_def)
  from assms(1) have dist: "distinct (map snd held)" by (simp add: lock_inv_def)
  then have dh: "distinct held" by (simp add: distinct_map)
  have set_rem: "set (remove1 (c, lk) held) = set held - {(c, lk)}"
    using dh by (simp add: set_remove1_eq)
  have other: "d = c" if "(d, lk) \<in> set held" for d
    using assms(1) h that by (auto simp: lock_inv_def)
  have d1: "distinct (map snd (remove1 (c, lk) held))"
    using dist by (simp add: distinct_map inj_on_def set_rem distinct_remove1)
  have len: "length (filter (\<lambda>h. fst h = d) (remove1 (c, lk) held)) =
      length (filter (\<lambda>h. fst h = d) held) - (if d = c then 1 else 0)" for d
    using mem by (auto simp: filter_remove1 length_remove1 remove1_idem)
  have cpu: "cpus u = (cpus s)(c := popped (cpus s c))"
    by (simp add: u given_def core_defs)
  have lks: "locks u = (locks s)(lk := (locks s lk)\<lparr>locked := 0, lkcpu := None\<rparr>)"
    by (simp add: u given_def core_defs)
  have n: "ncli (cpus s d) = int (length (filter (\<lambda>h. fst h = d) held))"
    and off: "0 < ncli (cpus s d) \<longrightarrow> \<not> iflag (cpus s d)" for d
    using assms(1) by (simp_all add: lock_inv_def)
  have held': "(d, l) \<in> set (remove1 (c, lk) held) \<longleftrightarrow>
      locked (locks u l) \<noteq> 0 \<and> lkcpu (locks u l) = Some d" for d l
    using assms(1) h other by (auto simp: lock_inv_def set_rem lks)
  have ncli': "ncli (cpus u d) = int (length (filter (\<lambda>h. fst h = d) (remove1 (c, lk) held)))" for d
    using n [of d] pos unfolding len cpu
    by (cases "d = c") (simp_all add: of_nat_diff Suc_le_eq del: length_greater_0_conv)
  have off': "0 < ncli (cpus u d) \<longrightarrow> \<not> iflag (cpus u d)" for d
    using off [of d] by (simp add: cpu popped_def)
  show ?thesis
    using assms(1) d1 held' ncli' off' unfolding lock_inv_def
    by (intro conjI allI) (simp_all add: lks)
qed

lemma inside_snoc: "inside (tr @ [e]) = inside_step (inside tr) e"
  by (simp add: inside_def)

lemma lock_run_inv: "lock_run s tr t \<Longrightarrow> locks_quiet s \<Longrightarrow> lock_inv (inside tr) t"
proof (induction rule: lock_run.induct)
  case (run_start s)
  then show ?case by (simp add: inside_def lock_inv_start)
next
  case (run_acq s tr t lk c u)
  then show ?case by (simp add: inside_snoc lock_inv_acq)
next
  case (run_rel s tr t lk c u)
  then show ?case by (simp add: inside_snoc lock_inv_rel)
qed

section \<open>Properties\<close>

fun pushcli_n :: "nat \<Rightarrow> ('e kcore_scheme, unit) kop" where
  "pushcli_n 0 = ret ()"
| "pushcli_n (Suc n) = seq (pushcli_n n) pushcli"

fun popcli_n :: "nat \<Rightarrow> ('e kcore_scheme, unit) kop" where
  "popcli_n 0 = ret ()"
| "popcli_n (Suc n) = seq popcli (popcli_n n)"

definition quiet_core :: kcore where
  "quiet_core =
     \<lparr>me = 0,
      cpus = (\<lambda>c. \<lparr>cpuid = c, ncli = 0, intena = False, iflag = True, cproc = None, cr3 = 0, esp0 = 0\<rparr>),
      locks = (\<lambda>_. \<lparr>locked = 0, lkname = [], lkcpu = None\<rparr>)\<rparr>"

lemma locks_quiet_core [simp]: "locks_quiet quiet_core"
  by (simp add: locks_quiet_def quiet_core_def idle_def)


lemma quiet_acquire_run:
  "lock_run quiet_core [(1, Acq KmemLock)] (taken KmemLock (quiet_core\<lparr>me := 1\<rparr>))"
proof -
  have "acquire KmemLock (quiet_core\<lparr>me := 1\<rparr>) = Ok () (taken KmemLock (quiet_core\<lparr>me := 1\<rparr>))"
    by (rule acquire_eq) (simp add: idle_def quiet_core_def)
  from run_acq [OF run_start this] show ?thesis by simp
qed




text \<open>\<open>nested n c\<close>: the CPU after \<open>n\<close> calls of \<open>pushcli\<close>.\<close>

definition nested :: "nat \<Rightarrow> cpu \<Rightarrow> cpu" where
  "nested n c = (if n = 0 then c
     else c\<lparr>ncli := ncli c + int n, iflag := False,
            intena := (if ncli c = 0 then iflag c else intena c)\<rparr>)"

lemma pushed_nested: "0 \<le> ncli c \<Longrightarrow> pushed (nested n c) = nested (Suc n) c"
  by (cases n) (auto simp: pushed_def nested_def intro!: cpu.equality)

lemma popped_nested:
  "0 \<le> ncli c \<Longrightarrow> 0 < n \<Longrightarrow> popped (nested (Suc n) c) = nested n c"
  by (auto simp: popped_def nested_def intro!: cpu.equality)

lemma popped_nested_1:
  "0 \<le> ncli c \<Longrightarrow> (0 < ncli c \<longrightarrow> \<not> iflag c) \<Longrightarrow> popped (nested 1 c) = settle c"
  by (auto simp: popped_def nested_def settle_def intro!: cpu.equality)

lemma pushcli_n_eq:
  "cli_wf s \<Longrightarrow> pushcli_n n s = Ok () (set_mycpu (nested n) s)"
proof (induction n)
  case 0
  then show ?case by (simp add: nested_def core_defs)
next
  case (Suc n)
  then show ?case
    by (simp add: kop_simps pushcli_eq set_mycpu_comp)
      (rule set_mycpu_cong, simp add: pushed_nested cli_wf_def)
qed

lemma popcli_nested:
  "cli_wf s \<Longrightarrow> popcli (set_mycpu (nested (Suc n)) s) =
     Ok () (set_mycpu (if n = 0 then settle else nested n) s)"
  by (subst popcli_eq)
    (auto simp: nested_def cli_wf_def set_mycpu_comp popped_def settle_def
      intro!: set_mycpu_cong cpu.equality split: if_splits)

lemma popcli_n_eq:
  "cli_wf s \<Longrightarrow> popcli_n (Suc n) (set_mycpu (nested (Suc n)) s) = Ok () (set_mycpu settle s)"
proof (induction n)
  case 0
  then show ?case by (simp add: kop_simps popcli_nested)
next
  case (Suc n)
  have "popcli_n (Suc (Suc n)) (set_mycpu (nested (Suc (Suc n))) s) =
      popcli_n (Suc n) (set_mycpu (nested (Suc n)) s)"
    by (subst popcli_n.simps) (simp add: kop_simps popcli_nested [OF Suc.prems] del: popcli_n.simps)
  then show ?case using Suc by simp
qed

text \<open>
  C23 (nesting of pushcli). As many \<open>popcli\<close> as \<open>pushcli\<close> never panic and bring the
  nesting depth, the interrupt flag and everything but the saved flag back; in between,
  interrupts are off.
\<close>

theorem pushcli_popcli_nest:
  assumes "cli_wf s"
  shows "\<exists>t. pushcli_n (Suc n) s = Ok () t \<and> \<not> iflag (mycpu t)
    \<and> ncli (mycpu t) = ncli (mycpu s) + int (Suc n)
    \<and> popcli_n (Suc n) t = Ok () (settled s)
    \<and> iflag (mycpu (settled s)) = iflag (mycpu s) \<and> ncli (mycpu (settled s)) = ncli (mycpu s)"
  using assms popcli_n_eq [OF assms, of n] pushcli_n_eq [OF assms, of "Suc n"]
  by (auto simp: settled_def nested_def)

theorem pushcli_popcli_nest_witness:
  "cli_wf quiet_core \<and>
   (\<exists>t. pushcli_n 2 quiet_core = Ok () t \<and> \<not> iflag (mycpu t) \<and>
        popcli_n 2 t = Ok () (settled quiet_core) \<and> iflag (mycpu (settled quiet_core)))"
proof -
  have wf: "cli_wf quiet_core" by (simp add: cli_wf_def quiet_core_def mycpu_def)
  show ?thesis
    using wf pushcli_popcli_nest [OF wf, of 1]
    by (auto simp: numeral_2_eq_2 quiet_core_def mycpu_def)
qed

end
