(* ===== verification/Cstring.thy ===== *)
theory Cstring
  imports Layout
begin

unbundle bit_operations_syntax

text \<open>
  string.c over a byte-addressed memory, the block operations of x86.h that it uses, and
  the little-endian word access of the compiled code.  A pointer into a character array
  that is only read is a function from the index to the byte.
\<close>

section \<open>Words in memory\<close>

definition ld32 :: "memory \<Rightarrow> addr \<Rightarrow> uint" where
  "ld32 m a = ucast (m a) OR push_bit 8 (ucast (m (a + 1)))
     OR push_bit 16 (ucast (m (a + 2))) OR push_bit 24 (ucast (m (a + 3)))"

definition st32 :: "addr \<Rightarrow> uint \<Rightarrow> memory \<Rightarrow> memory" where
  "st32 a v m = m(a := ucast v, a + 1 := ucast (drop_bit 8 v),
     a + 2 := ucast (drop_bit 16 v), a + 3 := ucast (drop_bit 24 v))"

text \<open>Storing and loading a sequence of bytes.\<close>

fun write_bytes :: "addr \<Rightarrow> uchar list \<Rightarrow> memory \<Rightarrow> memory" where
  "write_bytes a [] m = m"
| "write_bytes a (b # bs) m = write_bytes (a + 1) bs (m(a := b))"

definition read_bytes :: "memory \<Rightarrow> addr \<Rightarrow> nat \<Rightarrow> uchar list" where
  "read_bytes m a n = map (\<lambda>i. m (a + of_nat i)) [0..<n]"

section \<open>x86.h: stosb and stosl\<close>

fun stosb :: "addr \<Rightarrow> uint \<Rightarrow> nat \<Rightarrow> memory \<Rightarrow> memory" where
  "stosb a v 0 m = m"
| "stosb a v (Suc n) m = stosb (a + 1) v n (m(a := ucast v))"

fun stosl :: "addr \<Rightarrow> uint \<Rightarrow> nat \<Rightarrow> memory \<Rightarrow> memory" where
  "stosl a v 0 m = m"
| "stosl a v (Suc n) m = stosl (a + 4) v n (st32 a v m)"

section \<open>string.c\<close>

definition memset :: "addr \<Rightarrow> uint \<Rightarrow> uint \<Rightarrow> memory \<Rightarrow> memory" where
  "memset dst c n m =
     (if dst mod 4 = 0 \<and> n mod 4 = 0 then
        let c = c AND 0xFF
        in stosl dst (push_bit 24 c OR push_bit 16 c OR push_bit 8 c OR c) (unat n div 4) m
      else stosb dst c (unat n) m)"

fun memcmp :: "(nat \<Rightarrow> uchar) \<Rightarrow> (nat \<Rightarrow> uchar) \<Rightarrow> nat \<Rightarrow> int" where
  "memcmp s1 s2 0 = 0"
| "memcmp s1 s2 (Suc n) =
     (if s1 0 \<noteq> s2 0 then uint (s1 0) - uint (s2 0)
      else memcmp (\<lambda>i. s1 (Suc i)) (\<lambda>i. s2 (Suc i)) n)"

fun copy_down :: "addr \<Rightarrow> addr \<Rightarrow> nat \<Rightarrow> memory \<Rightarrow> memory" where
  "copy_down d s 0 m = m"
| "copy_down d s (Suc n) m = copy_down (d - 1) (s - 1) n (m(d - 1 := m (s - 1)))"

fun copy_up :: "addr \<Rightarrow> addr \<Rightarrow> nat \<Rightarrow> memory \<Rightarrow> memory" where
  "copy_up d s 0 m = m"
| "copy_up d s (Suc n) m = copy_up (d + 1) (s + 1) n (m(d := m s))"

definition memmove :: "addr \<Rightarrow> addr \<Rightarrow> uint \<Rightarrow> memory \<Rightarrow> memory" where
  "memmove dst src n m =
     (if src < dst \<and> src + n > dst then copy_down (dst + n) (src + n) (unat n) m
      else copy_up dst src (unat n) m)"

fun strncmp :: "(nat \<Rightarrow> uchar) \<Rightarrow> (nat \<Rightarrow> uchar) \<Rightarrow> nat \<Rightarrow> int" where
  "strncmp p q 0 = 0"
| "strncmp p q (Suc n) =
     (if p 0 \<noteq> 0 \<and> p 0 = q 0 then strncmp (\<lambda>i. p (Suc i)) (\<lambda>i. q (Suc i)) n
      else uint (p 0) - uint (q 0))"

fun fill_zero :: "addr \<Rightarrow> nat \<Rightarrow> memory \<Rightarrow> memory" where
  "fill_zero s 0 m = m"
| "fill_zero s (Suc n) m = fill_zero (s + 1) n (m(s := 0))"

fun strncpy :: "addr \<Rightarrow> addr \<Rightarrow> nat \<Rightarrow> memory \<Rightarrow> memory" where
  "strncpy s t 0 m = m"
| "strncpy s t (Suc n) m =
     (if m t \<noteq> 0 then strncpy (s + 1) (t + 1) n (m(s := m t))
      else fill_zero (s + 1) n (m(s := m t)))"

fun safestrcpy_loop :: "addr \<Rightarrow> addr \<Rightarrow> nat \<Rightarrow> memory \<Rightarrow> memory" where
  "safestrcpy_loop s t 0 m = m(s := 0)"
| "safestrcpy_loop s t (Suc n) m =
     (if m t \<noteq> 0 then safestrcpy_loop (s + 1) (t + 1) n (m(s := m t))
      else m(s := m t, s + 1 := 0))"

definition safestrcpy :: "addr \<Rightarrow> addr \<Rightarrow> int \<Rightarrow> memory \<Rightarrow> memory" where
  "safestrcpy s t n m = (if n \<le> 0 then m else safestrcpy_loop s t (nat (n - 1)) m)"

partial_function (option) strlen_from :: "(nat \<Rightarrow> uchar) \<Rightarrow> nat \<Rightarrow> nat option" where
  "strlen_from s n = (if s n \<noteq> 0 then strlen_from s (Suc n) else Some n)"

definition strlen :: "(nat \<Rightarrow> uchar) \<Rightarrow> nat option" where
  "strlen s = strlen_from s 0"

section \<open>Word access\<close>

lemma unat_diff_step: "x \<noteq> a \<Longrightarrow> unat (x - a) = Suc (unat (x - (a + 1 :: addr)))"
proof -
  assume "x \<noteq> a"
  then have "x - a \<noteq> 0" by simp
  then have "unat (x - a - 1) = unat (x - a) - 1" "unat (x - a) \<noteq> 0"
    by (simp_all add: unat_minus_one unat_eq_zero)
  then show ?thesis by (simp add: diff_diff_eq)
qed

lemma write_bytes_eq:
  "length bs \<le> 2 ^ 32 \<Longrightarrow>
   write_bytes a bs m x = (if unat (x - a) < length bs then bs ! unat (x - a) else m x)"
proof (induction bs arbitrary: a m)
  case Nil
  then show ?case by simp
next
  case (Cons b bs)
  show ?case
  proof (cases "x = a")
    case True
    have "unat (- 1 :: addr) = 2 ^ 32 - 1" by (simp add: unsigned_minus_1_eq_mask mask_eq_exp_minus_1)
    with True Cons show ?thesis by simp
  next
    case False
    have "unat (x - a) = Suc (unat (x - (a + 1)))" by (rule unat_diff_step [OF False])
    with False Cons show ?thesis by simp
  qed
qed

lemma length_read_bytes [simp]: "length (read_bytes m a n) = n"
  by (simp add: read_bytes_def)

lemma nth_read_bytes [simp]: "i < n \<Longrightarrow> read_bytes m a n ! i = m (a + of_nat i)"
  by (simp add: read_bytes_def)

lemma read_write_bytes:
  "length bs \<le> 2 ^ 32 \<Longrightarrow> read_bytes (write_bytes a bs m) a (length bs) = bs"
  by (rule nth_equalityI) (simp_all add: write_bytes_eq unat_of_nat)

lemma ucast_byte_bits: "bit (ucast (b :: uchar) :: uint) n \<longleftrightarrow> n < 8 \<and> bit b n"
  by (auto simp: bit_simps dest: bit_imp_le_length)

lemma addr_neq [simp]:
  "(a :: addr) + 1 \<noteq> a" "a + 2 \<noteq> a" "a + 3 \<noteq> a" "a + 2 \<noteq> a + 1" "a + 3 \<noteq> a + 1" "a + 3 \<noteq> a + 2"
  "a \<noteq> a + 1" "a \<noteq> a + 2" "a \<noteq> a + 3" "a + 1 \<noteq> a + 2" "a + 1 \<noteq> a + 3" "a + 2 \<noteq> a + 3"
  by simp_all

lemma ld32_st32_same [simp]: "ld32 (st32 a v m) a = v"
proof (rule bit_word_eqI)
  fix n
  assume "n < LENGTH(32)"
  then show "bit (ld32 (st32 a v m) a) n \<longleftrightarrow> bit v n"
    unfolding ld32_def st32_def
    by (cases "n < 8"; cases "n < 16"; cases "n < 24") (auto simp: bit_simps)
qed

text \<open>Word accesses at distinct multiples of four do not interfere.\<close>

lemma ld32_cong:
  "m a = m' a \<Longrightarrow> m (a + 1) = m' (a + 1) \<Longrightarrow> m (a + 2) = m' (a + 2) \<Longrightarrow> m (a + 3) = m' (a + 3) \<Longrightarrow>
   ld32 m a = ld32 m' a"
  by (simp add: ld32_def)

lemma unat_aligned_add:
  assumes "(a :: addr) mod 4 = 0" and "unat i < 4"
  shows "unat (a + i) = unat a + unat i"
proof -
  have "unat a mod 4 = 0" using assms(1) by (simp add: word_unat_eq_iff unat_mod)
  moreover have "unat a < 2 ^ 32" using unsigned_less [of a, where 'a = nat] by simp
  ultimately have "unat a + unat i < 2 ^ 32" using assms(2) by (simp add: mod_0_imp_dvd) presburger
  then show ?thesis by (simp add: unat_word_ariths)
qed

lemma aligned_distinct:
  assumes "(a :: addr) mod 4 = 0" and "b mod 4 = 0" and "a \<noteq> b"
    and "unat i < 4" and "unat j < 4"
  shows "a + i \<noteq> b + j"
proof
  assume "a + i = b + j"
  then have eq: "unat a + unat i = unat b + unat j"
    using assms by (metis unat_aligned_add)
  have "unat a mod 4 = 0" "unat b mod 4 = 0"
    using assms(1,2) by (simp_all add: word_unat_eq_iff unat_mod)
  with eq assms(4,5) have "unat a = unat b" by presburger
  with assms(3) show False by (simp add: word_unat_eq_iff)
qed

lemma ld32_st32_other [simp]:
  assumes "a mod 4 = 0" and "b mod 4 = 0" and "a \<noteq> b"
  shows "ld32 (st32 b v m) a = ld32 m a"
proof -
  have ne: "a + i \<noteq> b + j" if "i \<in> {0, 1, 2, 3}" "j \<in> {0, 1, 2, 3}" for i j
    using that by (intro aligned_distinct assms) auto
  show ?thesis
    using ne [of 0 0] ne [of 0 1] ne [of 0 2] ne [of 0 3] ne [of 1 0] ne [of 1 1] ne [of 1 2]
      ne [of 1 3] ne [of 2 0] ne [of 2 1] ne [of 2 2] ne [of 2 3] ne [of 3 0] ne [of 3 1]
      ne [of 3 2] ne [of 3 3]
    by (intro ld32_cong) (simp_all add: st32_def)
qed

section \<open>Block operations\<close>

lemma stosb_eq:
  "n \<le> 2 ^ 32 \<Longrightarrow> stosb a v n m = (\<lambda>x. if unat (x - a) < n then ucast v else m x)"
proof (induction n arbitrary: a m)
  case 0
  then show ?case by simp
next
  case (Suc n)
  show ?case
  proof (rule ext)
    fix x
    show "stosb a v (Suc n) m x = (if unat (x - a) < Suc n then ucast v else m x)"
    proof (cases "x = a")
      case True
      then show ?thesis using Suc by simp
    next
      case False
      then show ?thesis using Suc by (simp add: unat_diff_step)
    qed
  qed
qed

lemma stosb_add: "stosb a v (i + j) m = stosb (a + of_nat i) v j (stosb a v i m)"
  by (induction i arbitrary: a m) (simp_all add: add.assoc)

definition splat :: "uint \<Rightarrow> uint" where
  "splat c = (let c = c AND 0xFF in push_bit 24 c OR push_bit 16 c OR push_bit 8 c OR c)"

lemma splat_bytes:
  "(ucast (splat c) :: uchar) = ucast c" "(ucast (drop_bit 8 (splat c)) :: uchar) = ucast c"
  "(ucast (drop_bit 16 (splat c)) :: uchar) = ucast c" "(ucast (drop_bit 24 (splat c)) :: uchar) = ucast c"
proof -
  have m8: "(0xFF :: uint) = mask 8" by (simp add: mask_eq_exp_minus_1)
  show "(ucast (splat c) :: uchar) = ucast c" "(ucast (drop_bit 8 (splat c)) :: uchar) = ucast c"
    "(ucast (drop_bit 16 (splat c)) :: uchar) = ucast c" "(ucast (drop_bit 24 (splat c)) :: uchar) = ucast c"
    unfolding splat_def Let_def m8 by (rule bit_word_eqI; auto simp: bit_simps)+
qed

lemma st32_splat: "st32 a (splat c) m = stosb a c 4 m"
  by (simp add: st32_def splat_bytes) (simp add: numeral_eq_Suc add.assoc)

lemma stosl_splat: "stosl a (splat c) n m = stosb a c (4 * n) m"
proof (induction n arbitrary: a m)
  case 0
  then show ?case by simp
next
  case (Suc n)
  have "stosb a c (4 * Suc n) m = stosb (a + 4) c (4 * n) (stosb a c 4 m)"
    using stosb_add [of a c 4 "4 * n" m] by simp
  then show ?case using Suc by (simp add: st32_splat)
qed

lemma memset_eq: "memset dst c n m = (\<lambda>x. if x - dst < n then ucast c else m x)"
proof -
  have "memset dst c n m = stosb dst c (unat n) m"
  proof (cases "dst mod 4 = 0 \<and> n mod 4 = 0")
    case True
    then have "unat n mod 4 = 0" by (simp add: word_unat_eq_iff unat_mod)
    then have "4 * (unat n div 4) = unat n" by presburger
    with True show ?thesis
      using stosl_splat [of dst c "unat n div 4" m]
      by (simp add: memset_def splat_def Let_def)
  next
    case False
    show ?thesis unfolding memset_def if_not_P [OF False] ..
  qed
  moreover have "unat n \<le> 2 ^ 32" using unsigned_less [of n, where 'a = nat] by simp
  ultimately show ?thesis by (simp add: stosb_eq word_less_nat_alt)
qed

lemma copy_up_eq:
  assumes "n \<le> unat (d - s) \<or> d = s" and "n \<le> 2 ^ 32"
  shows "copy_up d s n m = (\<lambda>x. if unat (x - d) < n then m (s + (x - d)) else m x)"
  using assms
proof (induction n arbitrary: d s m)
  case 0
  then show ?case by simp
next
  case (Suc n)
  have IH: "copy_up (d + 1) (s + 1) n (m(d := m s)) =
      (\<lambda>x. if unat (x - (d + 1)) < n then (m(d := m s)) (s + 1 + (x - (d + 1))) else (m(d := m s)) x)"
    using Suc.prems by (intro Suc.IH) auto
  show ?case
  proof (rule ext)
    fix x
    show "copy_up d s (Suc n) m x = (if unat (x - d) < Suc n then m (s + (x - d)) else m x)"
    proof (cases "x = d")
      case True
      have "\<not> unat (- (1 :: addr)) < n"
        using Suc.prems(2) by (simp add: unsigned_minus_1_eq_mask mask_eq_exp_minus_1)
      with True show ?thesis by (simp add: IH)
    next
      case False
      have "s + (x - d) \<noteq> d" if "unat (x - (d + 1)) < n"
      proof
        assume "s + (x - d) = d"
        then have eq: "x - d = d - s" by (simp add: algebra_simps)
        show False
        proof (cases "d = s")
          case True
          with eq have "x = d" by simp
          with False show False by simp
        next
          case False
          with Suc.prems(1) have "Suc n \<le> unat (d - s)" by simp
          moreover have "unat (x - d) = unat (d - s)" using eq by simp
          ultimately show False using that unat_diff_step [OF \<open>x \<noteq> d\<close>] by linarith
        qed
      qed
      with False show ?thesis
        by (simp add: IH unat_diff_step)
    qed
  qed
qed

lemma copy_down_eq:
  assumes "n \<le> unat (s - d) \<or> d = s" and "n \<le> 2 ^ 32"
  shows "copy_down (d + of_nat n) (s + of_nat n) n m =
    (\<lambda>x. if unat (x - d) < n then m (s + (x - d)) else m x)"
  using assms
proof (induction n arbitrary: m)
  case 0
  then show ?case by simp
next
  case (Suc n)
  let ?m = "m(d + of_nat n := m (s + of_nat n))"
  have un: "unat (of_nat n :: addr) = n" using Suc.prems(2) by (simp add: unat_of_nat)
  have IH: "copy_down (d + of_nat n) (s + of_nat n) n ?m =
      (\<lambda>x. if unat (x - d) < n then ?m (s + (x - d)) else ?m x)"
    using Suc.prems by (intro Suc.IH) auto
  have step: "copy_down (d + of_nat (Suc n)) (s + of_nat (Suc n)) (Suc n) m =
      copy_down (d + of_nat n) (s + of_nat n) n ?m"
    by simp
  show ?case
  proof (rule ext)
    fix x
    have "s + (x - d) \<noteq> d + of_nat n" if "unat (x - d) < n"
    proof
      assume "s + (x - d) = d + of_nat n"
      then have eq: "of_nat n = (s - d) + (x - d)" by (simp add: algebra_simps)
      show False
      proof (cases "d = s")
        case True
        with eq have "unat (x - d) = n" using un by simp
        with that show False by simp
      next
        case False
        with Suc.prems(1) have ge: "Suc n \<le> unat (s - d)" by simp
        have "unat ((s - d) + (x - d)) = n" using eq un by simp
        then have "(unat (s - d) + unat (x - d)) mod 2 ^ 32 = n"
          by (simp only: unat_word_ariths) simp
        moreover have "unat (s - d) < 2 ^ 32" using unsigned_less [of "s - d", where 'a = nat] by simp
        moreover have "(unat (s - d) + unat (x - d)) mod 2 ^ 32 = unat (s - d) + unat (x - d) - 2 ^ 32"
          if "2 ^ 32 \<le> unat (s - d) + unat (x - d)"
          using that calculation(2) \<open>unat (x - d) < n\<close> Suc.prems(2) by (subst le_mod_geq) simp_all
        ultimately show False using ge that Suc.prems(2)
          by (cases "unat (s - d) + unat (x - d) < 2 ^ 32") simp_all
      qed
    qed
    moreover have "unat (x - d) = n \<longleftrightarrow> x = d + of_nat n"
      using un by (metis add_diff_cancel_left' diff_add_cancel add.commute word_unat_eq_iff)
    ultimately show "copy_down (d + of_nat (Suc n)) (s + of_nat (Suc n)) (Suc n) m x =
        (if unat (x - d) < Suc n then m (s + (x - d)) else m x)"
      unfolding step IH by (auto simp: less_Suc_eq)
  qed
qed

lemma memmove_eq:
  assumes "unat src + unat n < 2 ^ 32" and "unat dst + unat n \<le> 2 ^ 32"
  shows "memmove dst src n m = (\<lambda>x. if x - dst < n then m (src + (x - dst)) else m x)"
proof (cases "src < dst \<and> src + n > dst")
  case True
  have sn: "unat (src + n) = unat src + unat n" using assms(1) by (simp add: unat_word_ariths)
  have lt: "unat src < unat dst" "unat dst < unat src + unat n"
    using True sn by (simp_all add: word_less_nat_alt)
  have "unat (src - dst) = 2 ^ 32 + unat src - unat dst"
    using lt unsigned_less [of dst, where 'a = nat] by (simp add: unat_sub_if' )
  then have "unat n \<le> unat (src - dst)" using assms lt by simp
  then show ?thesis
    using copy_down_eq [of "unat n" src dst m] True assms(2)
    by (simp add: memmove_def word_less_nat_alt)
next
  case False
  have "unat n \<le> unat (dst - src) \<or> dst = src"
  proof (cases "src < dst")
    case True
    with False have "unat src + unat n \<le> unat dst"
      using assms(1) by (simp add: word_less_nat_alt unat_word_ariths)
    with True have "unat n \<le> unat (dst - src)" by (simp add: unat_sub_if' word_less_nat_alt)
    then show ?thesis ..
  next
    case nlt: False
    show ?thesis
    proof (cases "dst = src")
      case False
      with nlt have "unat dst < unat src"
        by (simp add: word_less_nat_alt word_unat_eq_iff)
      then have "unat (dst - src) = 2 ^ 32 + unat dst - unat src"
        using unsigned_less [of src, where 'a = nat] by (simp add: unat_sub_if')
      with assms(1) have "unat n \<le> unat (dst - src)" by simp
      then show ?thesis ..
    qed simp
  qed
  moreover have "unat n \<le> 2 ^ 32" using unsigned_less [of n, where 'a = nat] by simp
  ultimately show ?thesis
    unfolding memmove_def if_not_P [OF False]
    by (subst copy_up_eq) (simp_all add: word_less_nat_alt)
qed

section \<open>Strings\<close>

lemma strlen_from_Some:
  assumes "s k = 0" and "n \<le> k" and "\<And>i. n \<le> i \<Longrightarrow> i < k \<Longrightarrow> s i \<noteq> 0"
  shows "strlen_from s n = Some k"
  using assms
proof (induction "k - n" arbitrary: n)
  case 0
  then show ?case by (simp add: strlen_from.simps)
next
  case (Suc d)
  then have "s n \<noteq> 0" by simp
  moreover have "strlen_from s (Suc n) = Some k" using Suc by (intro Suc.hyps(1)) auto
  ultimately show ?case by (subst strlen_from.simps) simp
qed

lemma strlen_from_result:
  assumes "strlen_from s n = Some k"
  shows "n \<le> k \<and> s k = 0 \<and> (\<forall>i. n \<le> i \<and> i < k \<longrightarrow> s i \<noteq> 0)"
proof (rule strlen_from.raw_induct [where P = "\<lambda>s n k. n \<le> k \<and> s k = 0 \<and> (\<forall>i. n \<le> i \<and> i < k \<longrightarrow> s i \<noteq> 0)", OF _ assms])
  fix f s n k
  assume IH: "\<And>s n k. f s n = Some k \<Longrightarrow> n \<le> k \<and> s k = 0 \<and> (\<forall>i. n \<le> i \<and> i < k \<longrightarrow> s i \<noteq> 0)"
    and eq: "(if s n \<noteq> 0 then f s (Suc n) else Some n) = Some k"
  show "n \<le> k \<and> s k = 0 \<and> (\<forall>i. n \<le> i \<and> i < k \<longrightarrow> s i \<noteq> 0)"
  proof (cases "s n = 0")
    case True
    with eq show ?thesis by auto
  next
    case False
    with eq have "f s (Suc n) = Some k" by simp
    from IH [OF this] False show ?thesis by (metis Suc_leD Suc_leI le_neq_implies_less)
  qed
qed

lemma strncmp_eq_0_iff:
  "strncmp p q n = 0 \<longleftrightarrow>
     (\<forall>i < n. p i = q i \<or> (\<exists>j < i. p j = 0 \<and> q j = 0))"
proof (induction n arbitrary: p q)
  case 0
  then show ?case by simp
next
  case (Suc n)
  have all: "(\<forall>i < Suc n. P i) \<longleftrightarrow> P 0 \<and> (\<forall>i < n. P (Suc i))" for P :: "nat \<Rightarrow> bool"
    by (auto simp: less_Suc_eq_0_disj)
  have ex: "(\<exists>j < Suc i. Q j) \<longleftrightarrow> Q 0 \<or> (\<exists>j < i. Q (Suc j))" for i and Q :: "nat \<Rightarrow> bool"
    by (auto simp: less_Suc_eq_0_disj)
  show ?case unfolding all ex
    by (auto simp: Suc.IH word_uint_eq_iff)
qed

lemma fill_zero_frame: "n \<le> unat (x - s) \<Longrightarrow> fill_zero s n m x = m x"
proof (induction n arbitrary: s m)
  case (Suc n)
  then have "x \<noteq> s" by auto
  with Suc show ?case by (simp add: unat_diff_step)
qed simp

lemma strncpy_frame: "n \<le> unat (x - s) \<Longrightarrow> strncpy s t n m x = m x"
proof (induction n arbitrary: s t m)
  case (Suc n)
  then have "x \<noteq> s" by auto
  with Suc show ?case by (simp add: unat_diff_step fill_zero_frame)
qed simp

lemma safestrcpy_loop_frame: "n < unat (x - s) \<Longrightarrow> safestrcpy_loop s t n m x = m x"
proof (induction n arbitrary: s t m)
  case 0
  then have "x \<noteq> s" by auto
  then show ?case by simp
next
  case (Suc n)
  then have "x \<noteq> s" "x \<noteq> s + 1" by auto
  with Suc show ?case by (simp add: unat_diff_step)
qed

lemma safestrcpy_loop_result:
  assumes "n < 2 ^ 32 - 1" and "\<And>i. i \<le> n \<Longrightarrow> n < unat (t + of_nat i - s)"
  shows "\<exists>k \<le> n. safestrcpy_loop s t n m (s + of_nat k) = 0
    \<and> (\<forall>i < k. m (t + of_nat i) \<noteq> 0 \<and> safestrcpy_loop s t n m (s + of_nat i) = m (t + of_nat i))
    \<and> (k = n \<or> m (t + of_nat k) = 0)"
  using assms
proof (induction n arbitrary: s t m)
  case 0
  then show ?case by simp
next
  case (Suc n)
  show ?case
  proof (cases "m t = 0")
    case True
    then show ?thesis by (intro exI [of _ 0]) simp
  next
    case False
    define m' where "m' = m(s := m t)"
    define r where "r = safestrcpy_loop (s + 1) (t + 1) n m'"
    have n32: "n < 2 ^ 32 - 1" using Suc.prems(1) by simp
    have far: "n < unat (t + 1 + of_nat i - (s + 1))" if "i \<le> n" for i
      using Suc.prems(2) [of i] that by (simp add: algebra_simps)
    from Suc.IH [OF n32 far, of m']
    obtain k where k: "k \<le> n" "r (s + 1 + of_nat k) = 0"
        "\<forall>i < k. m' (t + 1 + of_nat i) \<noteq> 0 \<and> r (s + 1 + of_nat i) = m' (t + 1 + of_nat i)"
        "k = n \<or> m' (t + 1 + of_nat k) = 0"
      unfolding r_def by blast
    have un: "unat (- (1 :: addr)) = 2 ^ 32 - 1"
      by (simp add: unsigned_minus_1_eq_mask mask_eq_exp_minus_1)
    have "r s = m' s" unfolding r_def using n32 un by (intro safestrcpy_loop_frame) simp
    then have rs: "r s = m t" by (simp add: m'_def)
    have m': "m' (t + 1 + of_nat i) = m (t + of_nat (Suc i))" if "i \<le> n" for i
    proof -
      have "t + of_nat (Suc i) \<noteq> s" using Suc.prems(2) [of "Suc i"] that by auto
      then show ?thesis by (simp add: m'_def algebra_simps)
    qed
    have loop: "safestrcpy_loop s t (Suc n) m = r"
      using False by (simp add: r_def m'_def)
    have "m (t + of_nat i) \<noteq> 0 \<and> r (s + of_nat i) = m (t + of_nat i)" if "i < Suc k" for i
    proof (cases i)
      case 0
      then show ?thesis using False rs by simp
    next
      case (Suc j)
      with that k(1) have "j < k" "j \<le> n" by simp_all
      then show ?thesis
        using k(3) [rule_format, of j] m' [of j] Suc by (simp add: add.assoc)
    qed
    moreover have "r (s + of_nat (Suc k)) = 0" using k(2) by (simp add: add.assoc)
    moreover have "Suc k = Suc n \<or> m (t + of_nat (Suc k)) = 0"
      using k(4) m' [OF k(1)] by simp
    ultimately show ?thesis unfolding loop using k(1) by (intro exI [of _ "Suc k"]) simp
  qed
qed

section \<open>Properties\<close>

text \<open>
  C25 (memmove). For regions that do not wrap around the address space, \<open>memmove\<close> copies the
  old contents of the source to the destination and changes nothing else, however the
  two regions overlap.
\<close>

theorem memmove_overlap:
  assumes "unat src + unat n < 2 ^ 32" and "unat dst + unat n \<le> 2 ^ 32"
  shows "memmove dst src n m x = (if x - dst < n then m (src + (x - dst)) else m x)"
  using assms by (simp add: memmove_eq)

theorem memmove_overlap_witness:
  "memmove 2 0 4 (\<lambda>a. ucast a) 5 = 3 \<and> memmove 0 2 4 (\<lambda>a. ucast a) 3 = 5
   \<and> memmove 2 0 4 (\<lambda>a. ucast a) 7 = 7"
  using memmove_overlap [of 0 4 2 "\<lambda>a. ucast a" 5] memmove_overlap [of 2 4 0 "\<lambda>a. ucast a" 3]
    memmove_overlap [of 0 4 2 "\<lambda>a. ucast a" 7]
  by simp

text \<open>
  C26 (memset). The word-wise fast path and the byte-wise path of \<open>memset\<close> both write the
  low byte of \<open>c\<close> to exactly the \<open>n\<close> bytes from \<open>dst\<close> on.
\<close>

theorem memset_bytes: "memset dst c n m x = (if x - dst < n then ucast c else m x)"
  by (simp add: memset_eq)

text \<open>
  C27 (safestrcpy). The destination is NUL-terminated within \<open>n\<close> bytes, holds the source
  string up to the terminator or the first \<open>n - 1\<close> bytes of it, and no byte outside the
  \<open>n\<close> bytes of the destination changes.
\<close>

theorem safestrcpy_spec:
  assumes "0 < n" and "n < 2 ^ 32"
    and "\<And>i. i < nat n \<Longrightarrow> nat n \<le> unat (t + of_nat i - s)"
  shows "\<exists>k < nat n. safestrcpy s t n m (s + of_nat k) = 0
    \<and> (\<forall>i < k. m (t + of_nat i) \<noteq> 0 \<and> safestrcpy s t n m (s + of_nat i) = m (t + of_nat i))
    \<and> (k = nat n - 1 \<or> m (t + of_nat k) = 0)
    \<and> (\<forall>x. nat n \<le> unat (x - s) \<longrightarrow> safestrcpy s t n m x = m x)"
proof -
  define l where "l = nat (n - 1)"
  have l: "nat n = Suc l" and l32: "l < 2 ^ 32 - 1" using assms(1,2) by (simp_all add: l_def)
  have eq: "safestrcpy s t n m = safestrcpy_loop s t l m"
    using assms(1) by (simp add: safestrcpy_def l_def)
  have "\<exists>k \<le> l. safestrcpy_loop s t l m (s + of_nat k) = 0
    \<and> (\<forall>i < k. m (t + of_nat i) \<noteq> 0 \<and> safestrcpy_loop s t l m (s + of_nat i) = m (t + of_nat i))
    \<and> (k = l \<or> m (t + of_nat k) = 0)"
    using l32 by (rule safestrcpy_loop_result) (use assms(3) l in \<open>simp add: less_Suc_eq_le Suc_le_eq\<close>)
  moreover have "safestrcpy_loop s t l m x = m x" if "nat n \<le> unat (x - s)" for x
    using that l by (intro safestrcpy_loop_frame) simp
  ultimately show ?thesis unfolding eq using l by (auto simp: less_Suc_eq_le)
qed

theorem safestrcpy_spec_witness:
  "\<exists>k < 3. safestrcpy 100 8 3 (\<lambda>a. ucast a) (100 + of_nat k) = 0
     \<and> safestrcpy 100 8 3 (\<lambda>a. ucast a) 103 = 103"
proof -
  have far: "nat 3 \<le> unat (8 + of_nat i - (100 :: addr))" if "i < nat 3" for i
  proof -
    from that have "i = 0 \<or> i = 1 \<or> i = 2" by auto
    then show ?thesis by auto
  qed
  from safestrcpy_spec [of 3 8 100 "\<lambda>a. ucast a", OF _ _ far]
  obtain k where "k < 3" "safestrcpy 100 8 3 (\<lambda>a. ucast a) (100 + of_nat k) = 0"
      "\<forall>x :: addr. 3 \<le> unat (x - 100) \<longrightarrow> safestrcpy 100 8 3 (\<lambda>a. ucast a) x = ucast x"
    by auto
  then show ?thesis by (intro exI [of _ k]) (auto dest: spec [of _ 103])
qed

end
