(* ===== verification/Kalloc.thy ===== *)
theory Kalloc
  imports Spinlock Cstring
begin

unbundle bit_operations_syntax

text \<open>
  kalloc.c: the physical page allocator.  The free list is a chain of pages linked through
  their first word (\<open>struct run\<close>), so it lives in the memory of the state.  \<open>kend\<close> is the
  linker symbol \<open>end\<close>, the first address after the kernel.
\<close>

section \<open>State and operations\<close>

record kmem = kcore +
  mem :: memory
  use_lock :: bool
  freelist :: addr
  kend :: addr

definition kfree :: "addr \<Rightarrow> ('e kmem_scheme, unit) kop" where
  "kfree v =
     bnd (gets kend) (\<lambda>end.
     if v mod PGSIZE \<noteq> 0 \<or> v < end \<or> v2p v \<ge> PHYSTOP then panic ''kfree''
     else
       seq (modify (\<lambda>s. s\<lparr>mem := memset v 1 PGSIZE (mem s)\<rparr>))
       (bnd (gets use_lock) (\<lambda>ul.
        seq (whenM ul (acquire KmemLock))
        (seq (modify (\<lambda>s. s\<lparr>mem := st32 v (freelist s) (mem s)\<rparr>))
        (seq (modify (\<lambda>s. s\<lparr>freelist := v\<rparr>))
             (whenM ul (release KmemLock)))))))"

definition kalloc :: "('e kmem_scheme, addr) kop" where
  "kalloc =
     bnd (gets use_lock) (\<lambda>ul.
     seq (whenM ul (acquire KmemLock))
     (bnd (gets freelist) (\<lambda>r.
      seq (whenM (r \<noteq> 0) (modify (\<lambda>s. s\<lparr>freelist := ld32 (mem s) r\<rparr>)))
      (seq (whenM ul (release KmemLock))
           (ret r)))))"

lemma kfree_Ok_page:
  "kfree p s = Ok u t \<Longrightarrow> p mod PGSIZE = 0 \<and> kend s \<le> p \<and> v2p p < PHYSTOP"
  by (auto simp: kfree_def kop_simps split: if_splits)

lemma unat_kpage: "v2p p < PHYSTOP \<Longrightarrow> unat p = unat (v2p p) + 0x80000000 \<and> unat (v2p p) < 0xE000000"
proof -
  assume "v2p p < PHYSTOP"
  then have lt: "unat (v2p p) < 0xE000000" by (simp add: word_less_nat_alt PHYSTOP_def)
  have "unat (v2p p + 0x80000000) = unat (v2p p) + 0x80000000"
    using lt by (simp only: unat_word_ariths) simp
  moreover have "v2p p + 0x80000000 = p" by (simp add: v2p_def KERNBASE_def)
  ultimately show ?thesis using lt by simp
qed

lemma page_no_wrap: "v2p p < PHYSTOP \<Longrightarrow> unat (p + PGSIZE) = unat p + 4096"
  using unat_kpage [of p] by (simp add: PGSIZE_def unat_word_ariths)

function freerange_from :: "addr \<Rightarrow> addr \<Rightarrow> ('e kmem_scheme, unit) kop" where
  "freerange_from p vend s =
     (if p + PGSIZE \<le> vend then
        (case kfree p s of
           Ok _ t \<Rightarrow> freerange_from (p + PGSIZE) vend t
         | Stop h \<Rightarrow> Stop h)
      else Ok () s)"
  by pat_completeness auto

termination
proof (relation "measure (\<lambda>(p, vend, s). 2 ^ 32 - unat p)", goal_cases)
  case 1
  show ?case by simp
next
  case (2 p vend s u t)
  then have "v2p p < PHYSTOP" by (simp add: kfree_Ok_page)
  then show ?case using page_no_wrap [of p] unat_kpage [of p] by auto
qed

declare freerange_from.simps [simp del]

definition freerange :: "addr \<Rightarrow> addr \<Rightarrow> ('e kmem_scheme, unit) kop" where
  "freerange vstart vend = freerange_from (PGROUNDUP vstart) vend"

definition kinit1 :: "addr \<Rightarrow> addr \<Rightarrow> ('e kmem_scheme, unit) kop" where
  "kinit1 vstart vend =
     seq (initlock KmemLock ''kmem'')
     (seq (modify (\<lambda>s. s\<lparr>use_lock := False\<rparr>))
          (freerange vstart vend))"

definition kinit2 :: "addr \<Rightarrow> addr \<Rightarrow> ('e kmem_scheme, unit) kop" where
  "kinit2 vstart vend =
     seq (freerange vstart vend) (modify (\<lambda>s. s\<lparr>use_lock := True\<rparr>))"

text \<open>\<open>kalloc2\<close> and \<open>kfree2\<close>, the copies of the two functions that the thread queue uses.\<close>

definition kalloc2 :: "('e kmem_scheme, addr) kop" where
  "kalloc2 =
     bnd (gets use_lock) (\<lambda>ul.
     seq (whenM ul (acquire KmemLock))
     (bnd (gets freelist) (\<lambda>r.
      seq (whenM (r \<noteq> 0) (modify (\<lambda>s. s\<lparr>freelist := ld32 (mem s) r\<rparr>)))
      (seq (whenM ul (release KmemLock))
           (ret r)))))"

definition kfree2 :: "addr \<Rightarrow> ('e kmem_scheme, unit) kop" where
  "kfree2 v =
     bnd (gets kend) (\<lambda>end.
     if v mod PGSIZE \<noteq> 0 \<or> v < end \<or> v2p v \<ge> PHYSTOP then panic ''kfree''
     else
       seq (modify (\<lambda>s. s\<lparr>mem := memset v 1 PGSIZE (mem s)\<rparr>))
       (bnd (gets use_lock) (\<lambda>ul.
        seq (whenM ul (acquire KmemLock))
        (seq (modify (\<lambda>s. s\<lparr>mem := st32 v (freelist s) (mem s)\<rparr>))
        (seq (modify (\<lambda>s. s\<lparr>freelist := v\<rparr>))
             (whenM ul (release KmemLock)))))))"

section \<open>The free list\<close>

text \<open>
  \<open>freechain m p ps\<close>: following the links from \<open>p\<close> visits exactly the pages \<open>ps\<close>.
  \<open>kmem_wf s ps\<close>: \<open>ps\<close> is the free list, its pages are distinct pages of the range that
  the allocator manages.
\<close>

fun freechain :: "memory \<Rightarrow> addr \<Rightarrow> addr list \<Rightarrow> bool" where
  "freechain m p [] \<longleftrightarrow> p = 0"
| "freechain m p (a # as) \<longleftrightarrow> p = a \<and> a \<noteq> 0 \<and> freechain m (ld32 m a) as"

definition kpage :: "'e kmem_scheme \<Rightarrow> addr \<Rightarrow> bool" where
  "kpage s a \<longleftrightarrow> a mod PGSIZE = 0 \<and> kend s \<le> a \<and> v2p a < PHYSTOP"

definition kmem_wf :: "'e kmem_scheme \<Rightarrow> addr list \<Rightarrow> bool" where
  "kmem_wf s ps \<longleftrightarrow>
     freechain (mem s) (freelist s) ps \<and> distinct ps \<and> (\<forall>a \<in> set ps. kpage s a)"

definition kmem_ready :: "'e kmem_scheme \<Rightarrow> addr list \<Rightarrow> bool" where
  "kmem_ready s ps \<longleftrightarrow> kmem_wf s ps \<and> idle KmemLock s \<and> cli_wf s"

lemma kmem_lock_simps [simp]:
  "mem (taken lk s) = mem s" "freelist (taken lk s) = freelist s"
  "kend (taken lk s) = kend s" "use_lock (taken lk s) = use_lock s"
  "mem (settled s) = mem s" "freelist (settled s) = freelist s"
  "kend (settled s) = kend s" "use_lock (settled s) = use_lock s"
  "mem (given lk s) = mem s" "freelist (given lk s) = freelist s"
  "kend (given lk s) = kend s" "use_lock (given lk s) = use_lock s"
  by (simp_all add: taken_def settled_def given_def core_defs)

lemma kmem_upd_simps [simp]:
  "mem_update f (taken lk s) = taken lk (mem_update f s)"
  "freelist_update g (taken lk s) = taken lk (freelist_update g s)"
  "mem_update f (settled s) = settled (mem_update f s)"
  "freelist_update g (settled s) = settled (freelist_update g s)"
  "idle lk (mem_update f s) = idle lk s" "idle lk (freelist_update g s) = idle lk s"
  "cli_wf (mem_update f s) = cli_wf s" "cli_wf (freelist_update g s) = cli_wf s"
  "mycpu (mem_update f s) = mycpu s" "mycpu (freelist_update g s) = mycpu s"
  by (simp_all add: taken_def settled_def core_defs idle_def cli_wf_def)

text \<open>\<open>maybe_settled\<close>: the lock is only taken once \<open>kinit2\<close> has set \<open>use_lock\<close>.\<close>

definition maybe_settled :: "'e kmem_scheme \<Rightarrow> 'e kmem_scheme" where
  "maybe_settled s = (if use_lock s then settled s else s)"

lemma kalloc_eq:
  assumes "idle KmemLock s" and "cli_wf s"
  shows "kalloc s = Ok (freelist s)
    (maybe_settled (if freelist s = 0 then s else s\<lparr>freelist := ld32 (mem s) (freelist s)\<rparr>))"
  using assms by (auto simp: kalloc_def kop_simps maybe_settled_def)

lemma kfree_eq:
  assumes "idle KmemLock s" and "cli_wf s" and "kpage s v"
  shows "kfree v s = Ok ()
    (maybe_settled (s\<lparr>mem := st32 v (freelist s) (memset v 1 PGSIZE (mem s)), freelist := v\<rparr>))"
  using assms by (auto simp: kfree_def kop_simps kpage_def maybe_settled_def)

lemma kalloc2_kalloc: "kalloc2 = kalloc"
  by (simp add: kalloc2_def kalloc_def)

lemma kfree2_kfree: "kfree2 = kfree"
  by (simp add: fun_eq_iff kfree2_def kfree_def)

lemma freechain_frame:
  assumes "freechain m p ps" and "\<And>a. a \<in> set ps \<Longrightarrow> ld32 m' a = ld32 m a"
  shows "freechain m' p ps"
  using assms by (induction ps arbitrary: p) auto

lemma freechain_unique: "freechain m p ps \<Longrightarrow> freechain m p qs \<Longrightarrow> ps = qs"
proof (induction ps arbitrary: p qs)
  case Nil
  then show ?case by (cases qs) auto
next
  case (Cons a ps)
  then show ?case by (cases qs) auto
qed

lemma kpage_nonzero: "kpage s a \<Longrightarrow> a \<noteq> 0"
  by (auto simp: kpage_def v2p_def KERNBASE_def PHYSTOP_def)

lemma kpage_aligned4: "kpage s a \<Longrightarrow> a mod 4 = 0"
proof -
  assume "kpage s a"
  then have "unat a mod 4096 = 0" by (simp only: kpage_def page_aligned_iff)
  then obtain k where "unat a = 4 * (1024 * k)" by auto
  then have "unat a mod 4 = 0" by (simp only: mod_mult_self1_is_0)
  then show ?thesis by (simp add: word_unat_eq_iff unat_mod)
qed

text \<open>Distinct pages do not overlap: an address belongs to one page only.\<close>

lemma nat_page: "4096 * k \<le> (x :: nat) \<Longrightarrow> x - 4096 * k < 4096 \<longleftrightarrow> x div 4096 = k"
proof
  assume "4096 * k \<le> x" and "x - 4096 * k < 4096"
  then show "x div 4096 = k" by (intro div_nat_eqI) simp_all
next
  assume "4096 * k \<le> x" and "x div 4096 = k"
  then show "x - 4096 * k < 4096" using mult_div_mod_eq [of 4096 x] mod_less_divisor [of 4096 x] by linarith
qed

lemma page_offset:
  assumes "a mod PGSIZE = 0"
  shows "x - a < PGSIZE \<longleftrightarrow> PGROUNDDOWN x = a"
proof -
  from assms have "unat a mod 4096 = 0" by (simp only: page_aligned_iff)
  then obtain k where k: "unat a = 4096 * k" by auto
  have a32: "unat a < 2 ^ 32" using unsigned_less [of a, where 'a = nat] by simp
  have "x - a < PGSIZE \<longleftrightarrow> unat (x - a) < 4096" by (simp add: word_less_nat_alt PGSIZE_def)
  also have "\<dots> \<longleftrightarrow> unat x div 4096 = k"
  proof (cases "unat a \<le> unat x")
    case True
    then show ?thesis using k nat_page [of k "unat x"] by (simp add: unat_sub_if')
  next
    case False
    then have "unat (x - a) = 2 ^ 32 + unat x - unat a" using a32 by (simp add: unat_sub_if')
    moreover have "k < 1048576" using a32 k by simp
    moreover have "unat x div 4096 \<noteq> k" using False k mult_div_mod_eq [of 4096 "unat x"] by linarith
    ultimately show ?thesis using False k by simp
  qed
  also have "\<dots> \<longleftrightarrow> PGROUNDDOWN x = a"
    using k by (auto simp: word_unat_eq_iff unat_PGROUNDDOWN)
  finally show ?thesis .
qed

lemma page_bytes_other:
  assumes "a mod PGSIZE = 0" and "b mod PGSIZE = 0" and "a \<noteq> b" and "x - a < PGSIZE"
  shows "\<not> x - b < PGSIZE"
  using assms by (simp add: page_offset)

lemma ld32_in_page:
  assumes "a mod PGSIZE = 0" and "b mod PGSIZE = 0" and "a \<noteq> b"
    and "\<And>x. \<not> x - b < PGSIZE \<Longrightarrow> m' x = m x"
  shows "ld32 m' a = ld32 m a"
proof (rule ld32_cong)
  have "m' (a + i) = m (a + i)" if "i < 4" for i
    using that assms(1-3) by (intro assms(4) page_bytes_other [of a b]) (auto simp: PGSIZE_def word_less_nat_alt)
  from this [of 0] this [of 1] this [of 2] this [of 3]
  show "m' a = m a" "m' (a + 1) = m (a + 1)" "m' (a + 2) = m (a + 2)" "m' (a + 3) = m (a + 3)"
    by simp_all
qed

text \<open>The memory that \<open>kfree\<close> leaves: only the freed page changes.\<close>

lemma kfree_mem_frame:
  assumes "v mod PGSIZE = 0" and "\<not> x - v < PGSIZE"
  shows "st32 v w (memset v 1 PGSIZE m) x = m x"
proof -
  have "x \<noteq> v + i" if "i < 4" for i
    using that assms(2) by (auto simp: PGSIZE_def word_less_nat_alt)
  from this [of 0] this [of 1] this [of 2] this [of 3] show ?thesis
    using assms(2) by (simp add: st32_def memset_eq)
qed

lemma kmem_wf_settled [simp]:
  "kmem_wf (settled s) ps = kmem_wf s ps" "kmem_wf (maybe_settled s) ps = kmem_wf s ps"
  "kpage (settled s) = kpage s" "kpage (maybe_settled s) = kpage s"
  "idle lk (maybe_settled s) = idle lk s" "cli_wf (maybe_settled s) = cli_wf s"
  "mem (maybe_settled s) = mem s" "freelist (maybe_settled s) = freelist s"
  "kend (maybe_settled s) = kend s" "use_lock (maybe_settled s) = use_lock s"
  by (simp_all add: kmem_wf_def kpage_def fun_eq_iff maybe_settled_def)

lemma kpage_upd [simp]:
  "kpage (mem_update f s) = kpage s" "kpage (freelist_update g s) = kpage s"
  by (simp_all add: fun_eq_iff kpage_def)

lemma kalloc_Nil:
  assumes "kmem_ready s []"
  shows "kalloc s = Ok 0 (maybe_settled s)"
  using assms by (simp add: kmem_ready_def kmem_wf_def kalloc_eq)

lemma kalloc_Cons:
  assumes "kmem_ready s (a # ps)"
  shows "kalloc s = Ok a (maybe_settled (s\<lparr>freelist := ld32 (mem s) a\<rparr>))"
    and "kmem_ready (maybe_settled (s\<lparr>freelist := ld32 (mem s) a\<rparr>)) ps"
  using assms by (auto simp: kmem_ready_def kmem_wf_def kalloc_eq)

definition freed :: "addr \<Rightarrow> 'e kmem_scheme \<Rightarrow> 'e kmem_scheme" where
  "freed v s = maybe_settled
     (s\<lparr>mem := st32 v (freelist s) (memset v 1 PGSIZE (mem s)), freelist := v\<rparr>)"

lemma kfree_Ok:
  assumes "kmem_ready s ps" and "kpage s v"
  shows "kfree v s = Ok () (freed v s)"
  using assms by (simp add: kmem_ready_def kfree_eq freed_def)

lemma freed_simps [simp]:
  "kpage (freed v s) = kpage s" "idle lk (freed v s) = idle lk s" "cli_wf (freed v s) = cli_wf s"
  "freelist (freed v s) = v" "use_lock (freed v s) = use_lock s" "kend (freed v s) = kend s"
  "mem (freed v s) = st32 v (freelist s) (memset v 1 PGSIZE (mem s))"
  by (simp_all add: freed_def)

lemma kfree_ready:
  assumes "kmem_ready s ps" and "kpage s v" and "v \<notin> set ps"
  shows "kmem_ready (freed v s) (v # ps)"
proof -
  from assms(1) have chain: "freechain (mem s) (freelist s) ps" and pages: "\<forall>a \<in> set ps. kpage s a"
    and dist: "distinct ps"
    by (simp_all add: kmem_ready_def kmem_wf_def)
  have "ld32 (mem (freed v s)) a = ld32 (mem s) a" if "a \<in> set ps" for a
    using that pages assms(2,3) unfolding freed_simps
    by (intro ld32_in_page [of a v]) (auto simp: kpage_def kfree_mem_frame)
  then have "freechain (mem (freed v s)) (freelist s) ps"
    by (rule freechain_frame [OF chain])
  then show ?thesis
    using assms pages dist kpage_nonzero [OF assms(2)]
    by (simp add: kmem_ready_def kmem_wf_def)
qed

section \<open>Freeing a range\<close>

definition pages_from :: "addr \<Rightarrow> nat \<Rightarrow> addr list" where
  "pages_from p n = map (\<lambda>i. p + of_nat (4096 * i)) [0..<n]"

lemma pages_from_Suc: "pages_from p (Suc n) = p # pages_from (p + PGSIZE) n"
  unfolding pages_from_def upt_conv_Cons [OF zero_less_Suc] map_Suc_upt [symmetric]
  by (simp add: PGSIZE_def algebra_simps)

text \<open>The kernel's direct map ends at \<open>P2V(PHYSTOP)\<close>.\<close>

definition PHYSLIM :: addr where
  "PHYSLIM = p2v PHYSTOP"

lemma v2p_less_PHYSTOP: "KERNBASE \<le> p \<Longrightarrow> p < PHYSLIM \<Longrightarrow> v2p p < PHYSTOP"
  unfolding PHYSLIM_def p2v_def v2p_def layout_defs word_less_nat_alt word_le_nat_alt
  by (simp add: unat_sub_if')

lemma unat_PHYSLIM: "unat PHYSLIM = 0x8E000000"
  by (simp add: PHYSLIM_def p2v_def layout_defs)

lemma unat_add_PGSIZE: "p \<le> PHYSLIM \<Longrightarrow> unat (p + PGSIZE) = unat p + 4096"
  by (simp add: word_le_nat_alt unat_PHYSLIM PGSIZE_def unat_word_ariths)

lemma aligned_add_PGSIZE: "p mod PGSIZE = 0 \<Longrightarrow> p \<le> PHYSLIM \<Longrightarrow> (p + PGSIZE) mod PGSIZE = 0"
  unfolding page_aligned_iff by (simp add: unat_add_PGSIZE)

lemma freerange_from_spec:
  assumes "kmem_ready s ps" and "p mod PGSIZE = 0" and "kend s \<le> p" and "KERNBASE \<le> kend s"
    and "p \<le> PHYSLIM" and "vend \<le> PHYSLIM" and "n = (unat vend - unat p) div 4096"
    and "set (pages_from p n) \<inter> set ps = {}" and "distinct (pages_from p n)"
  shows "\<exists>t. freerange_from p vend s = Ok () t \<and> kmem_ready t (rev (pages_from p n) @ ps)
    \<and> kend t = kend s \<and> use_lock t = use_lock s"
  using assms
proof (induction n arbitrary: p s ps)
  case 0
  then have "\<not> p + PGSIZE \<le> vend"
    by (simp add: word_le_nat_alt unat_add_PGSIZE)
  then show ?case using "0.prems" by (subst freerange_from.simps) (simp add: pages_from_def)
next
  case (Suc n)
  have n: "Suc n = (unat vend - unat p) div 4096" by (rule Suc.prems(7))
  then have room: "unat p + 4096 \<le> unat vend"
    using div_greater_zero_iff [of "unat vend - unat p" 4096] by linarith
  have le: "p + PGSIZE \<le> vend" using room Suc.prems(5) by (simp add: word_le_nat_alt unat_add_PGSIZE)
  have lim: "p + PGSIZE \<le> PHYSLIM" using le Suc.prems(6) by simp
  have "p < PHYSLIM"
    using lim Suc.prems(5) by (simp add: word_le_nat_alt word_less_nat_alt unat_add_PGSIZE)
  then have page: "kpage s p"
    using Suc.prems v2p_less_PHYSTOP [of p] by (auto simp: kpage_def)
  have new: "p \<notin> set ps" using Suc.prems(8) by (auto simp: pages_from_Suc)
  have dj: "set (pages_from (p + PGSIZE) n) \<inter> set (p # ps) = {}"
    using Suc.prems(8,9) by (auto simp: pages_from_Suc)
  have dd: "distinct (pages_from (p + PGSIZE) n)" using Suc.prems(9) by (simp add: pages_from_Suc)
  have e: "kend (freed p s) \<le> p + PGSIZE" "KERNBASE \<le> kend (freed p s)"
    using Suc.prems(3-5) by (simp_all add: word_le_nat_alt unat_add_PGSIZE)
  have "n = (unat vend - unat (p + PGSIZE)) div 4096"
    using n Suc.prems(5) room le_div_geq [of 4096 "unat vend - unat p"]
    by (simp add: unat_add_PGSIZE)
  from Suc.IH [OF kfree_ready [OF Suc.prems(1) page new] aligned_add_PGSIZE [OF Suc.prems(2,5)]
      e lim Suc.prems(6) this dj dd]
  have "\<exists>t. freerange_from (p + PGSIZE) vend (freed p s) = Ok () t
      \<and> kmem_ready t (rev (pages_from (p + PGSIZE) n) @ p # ps)
      \<and> kend t = kend (freed p s) \<and> use_lock t = use_lock (freed p s)" .
  then show ?case
    using le kfree_Ok [OF Suc.prems(1) page]
    by (subst freerange_from.simps) (simp add: pages_from_Suc)
qed

lemma unat_of_page_index:
  assumes "4096 * n \<le> 2 ^ 32" and "i < n"
  shows "unat (of_nat (4096 * i) :: addr) = 4096 * i"
proof -
  have "4096 * i < 2 ^ LENGTH(32)"
    by (rule less_le_trans [of _ "4096 * n"]) (use assms in simp_all)
  then show ?thesis by (subst unat_of_nat) (rule mod_less)
qed

lemma distinct_pages_from:
  assumes "4096 * n \<le> 2 ^ 32"
  shows "distinct (pages_from p n)"
proof -
  have "i = j" if "i < n" "j < n" "p + of_nat (4096 * i) = p + of_nat (4096 * j)" for i j
  proof -
    from that(3) have "(of_nat (4096 * i) :: addr) = of_nat (4096 * j)" by (rule add_left_imp_eq)
    then have "unat (of_nat (4096 * i) :: addr) = unat (of_nat (4096 * j) :: addr)" by (rule arg_cong)
    then have "4096 * i = 4096 * j"
      unfolding unat_of_page_index [OF assms that(1)] unat_of_page_index [OF assms that(2)] .
    then show "i = j" by simp
  qed
  then have "inj_on (\<lambda>i. p + of_nat (4096 * i)) {0..<n}" by (intro inj_onI) (blast dest: atLeastLessThan_iff [THEN iffD1])
  then show ?thesis unfolding pages_from_def distinct_map
    by (simp only: distinct_upt set_upt simp_thms)
qed

section \<open>The allocator interface\<close>

text \<open>
  What the rest of the kernel relies on: \<open>wf s ps\<close> says that \<open>ps\<close> are the free pages, an
  allocation removes the first one or reports 0 when there is none, freeing a page that
  is in use puts it back.
\<close>

locale page_allocator =
  fixes alloc :: "('s, addr) kop"
    and free :: "addr \<Rightarrow> ('s, unit) kop"
    and wf :: "'s \<Rightarrow> addr list \<Rightarrow> bool"
    and page :: "'s \<Rightarrow> addr \<Rightarrow> bool"
  assumes alloc_none: "wf s [] \<Longrightarrow> \<exists>t. alloc s = Ok 0 t \<and> wf t [] \<and> page t = page s"
    and alloc_some: "wf s (a # ps) \<Longrightarrow> \<exists>t. alloc s = Ok a t \<and> wf t ps \<and> page t = page s"
    and free_page: "wf s ps \<Longrightarrow> page s a \<Longrightarrow> a \<notin> set ps \<Longrightarrow>
        \<exists>t. free a s = Ok () t \<and> wf t (a # ps) \<and> page t = page s"
    and wf_distinct: "wf s ps \<Longrightarrow> distinct ps"
    and wf_page: "wf s ps \<Longrightarrow> a \<in> set ps \<Longrightarrow> page s a"
    and page_nonzero: "page s a \<Longrightarrow> a \<noteq> 0"
begin

fun alloc_n :: "nat \<Rightarrow> ('s, addr list) kop" where
  "alloc_n 0 = ret []"
| "alloc_n (Suc n) = bnd alloc (\<lambda>a. bnd (alloc_n n) (\<lambda>as. ret (a # as)))"

fun free_all :: "addr list \<Rightarrow> ('s, unit) kop" where
  "free_all [] = ret ()"
| "free_all (a # as) = seq (free a) (free_all as)"

lemma alloc_n_take:
  "wf s ps \<Longrightarrow> n \<le> length ps \<Longrightarrow>
     \<exists>t. alloc_n n s = Ok (take n ps) t \<and> wf t (drop n ps) \<and> page t = page s"
proof (induction n arbitrary: s ps)
  case 0
  then show ?case by simp
next
  case (Suc n)
  then obtain a qs where ps: "ps = a # qs" by (cases ps) auto
  with alloc_some Suc.prems obtain t where t: "alloc s = Ok a t" "wf t qs" "page t = page s" by blast
  from Suc.IH [OF t(2)] Suc.prems ps obtain u
    where "alloc_n n t = Ok (take n qs) u" "wf u (drop n qs)" "page u = page t" by auto
  with t ps show ?case by simp
qed

lemma free_all_back:
  "wf s ps \<Longrightarrow> distinct as \<Longrightarrow> set as \<inter> set ps = {} \<Longrightarrow> \<forall>a \<in> set as. page s a \<Longrightarrow>
     \<exists>t. free_all as s = Ok () t \<and> wf t (rev as @ ps) \<and> page t = page s"
proof (induction as arbitrary: s ps)
  case Nil
  then show ?case by simp
next
  case (Cons a as)
  then obtain t where t: "free a s = Ok () t" "wf t (a # ps)" "page t = page s"
    using free_page [of s ps a] by auto
  with Cons.IH [OF t(2)] Cons.prems obtain u
    where "free_all as t = Ok () u" "wf u (rev as @ a # ps)" "page u = page t" by auto
  with t show ?case by simp
qed

text \<open>Allocating pages and freeing them again in reverse order is the identity on the free list.\<close>

lemma alloc_free_round:
  assumes "wf s ps" and "n \<le> length ps"
  shows "\<exists>as t u. alloc_n n s = Ok as t \<and> free_all (rev as) t = Ok () u \<and> wf u ps"
proof -
  from alloc_n_take [OF assms] obtain t
    where t: "alloc_n n s = Ok (take n ps) t" "wf t (drop n ps)" "page t = page s" by blast
  have d: "distinct ps" using assms(1) by (rule wf_distinct)
  have "\<exists>u. free_all (rev (take n ps)) t = Ok () u \<and> wf u (rev (rev (take n ps)) @ drop n ps)
      \<and> page u = page t"
    using t d assms(1) wf_page [OF assms(1)] set_take_disj_set_drop_if_distinct [OF d order_refl]
    by (intro free_all_back) (auto simp: distinct_rev dest: in_set_takeD)
  with t show ?thesis by auto
qed

lemma alloc_n_fresh:
  assumes "wf s ps" and "n \<le> length ps" and "alloc_n n s = Ok as t"
  shows "distinct as \<and> length as = n \<and> 0 \<notin> set as \<and> wf t (drop n ps) \<and> set as \<inter> set (drop n ps) = {}"
proof -
  from alloc_n_take [OF assms(1,2)] assms(3) have as: "as = take n ps" and w: "wf t (drop n ps)"
    by auto
  have d: "distinct ps" using assms(1) by (rule wf_distinct)
  have "0 \<notin> set ps" using wf_page [OF assms(1)] page_nonzero by blast
  with as w d assms(2) show ?thesis
    using set_take_disj_set_drop_if_distinct [OF d order_refl] by (auto dest: in_set_takeD)
qed

end

interpretation kalloc: page_allocator "kalloc :: ('e kmem_scheme, addr) kop" kfree kmem_ready kpage
proof
  show "\<exists>t. kalloc s = Ok 0 t \<and> kmem_ready t [] \<and> kpage t = kpage s"
    if "kmem_ready s []" for s :: "'e kmem_scheme"
    using that kalloc_Nil [OF that] by (simp add: kmem_ready_def)
  show "\<exists>t. kalloc s = Ok a t \<and> kmem_ready t ps \<and> kpage t = kpage s"
    if "kmem_ready s (a # ps)" for s :: "'e kmem_scheme" and a ps
    using kalloc_Cons [OF that] by simp
  show "\<exists>t. kfree a s = Ok () t \<and> kmem_ready t (a # ps) \<and> kpage t = kpage s"
    if "kmem_ready s ps" "kpage s a" "a \<notin> set ps" for s :: "'e kmem_scheme" and a ps
    using kfree_Ok [OF that(1,2)] kfree_ready [OF that] by simp
qed (auto simp: kmem_ready_def kmem_wf_def dest: kpage_nonzero)

interpretation kalloc2: page_allocator "kalloc2 :: ('e kmem_scheme, addr) kop" kfree2 kmem_ready kpage
  unfolding kalloc2_kalloc kfree2_kfree by (rule kalloc.page_allocator_axioms)

section \<open>Properties\<close>

fun kalloc_pages :: "nat \<Rightarrow> ('e kmem_scheme, addr list) kop" where
  "kalloc_pages 0 = ret []"
| "kalloc_pages (Suc n) = bnd kalloc (\<lambda>a. bnd (kalloc_pages n) (\<lambda>as. ret (a # as)))"

fun kfree_pages :: "addr list \<Rightarrow> ('e kmem_scheme, unit) kop" where
  "kfree_pages [] = ret ()"
| "kfree_pages (a # as) = seq (kfree a) (kfree_pages as)"

lemma kalloc_pages_eq: "kalloc_pages n = kalloc.alloc_n n"
  by (induction n) simp_all

lemma kfree_pages_eq: "kfree_pages as = kalloc.free_all as"
  by (induction as) simp_all

definition ex_kmem :: kmem where
  "ex_kmem = \<lparr>me = 0, cpus = cpus quiet_core, locks = locks quiet_core,
     mem = (\<lambda>_. 0), use_lock = True, freelist = 0x80400000, kend = 0x80200000\<rparr>"

lemma ex_kmem_ready: "kmem_ready ex_kmem [0x80400000]"
  by (simp add: kmem_ready_def kmem_wf_def ex_kmem_def kpage_def PGSIZE_def v2p_def layout_defs
      ld32_def idle_def cli_wf_def mycpu_def quiet_core_def)

text \<open>
  C28 (kalloc). With free pages left, \<open>kalloc\<close> returns the first page of the free list, which
  is then no longer free, and leaves memory alone; with none left it returns 0.
\<close>

theorem kalloc_spec:
  assumes "kmem_ready s ps"
  shows "\<exists>t. kalloc s = Ok (case ps of [] \<Rightarrow> 0 | a # _ \<Rightarrow> a) t \<and> kmem_ready t (tl ps)
    \<and> mem t = mem s \<and> (ps \<noteq> [] \<longrightarrow> kpage s (hd ps) \<and> hd ps \<notin> set (tl ps))"
proof (cases ps)
  case Nil
  with assms have r: "kmem_ready s []" by simp
  from kalloc_Nil [OF r] r Nil show ?thesis by (simp add: kmem_ready_def)
next
  case (Cons a qs)
  with assms have "kmem_ready s (a # qs)" by simp
  from kalloc_Cons [OF this] this Cons show ?thesis by (simp add: kmem_ready_def kmem_wf_def)
qed

theorem kalloc_spec_witness: "\<exists>t. kalloc ex_kmem = Ok 0x80400000 t \<and> kmem_ready t []"
  using kalloc_spec [OF ex_kmem_ready] by auto

text \<open>
  C29 (kfree). A page-aligned address between the end of the kernel and the end of physical
  memory is put at the front of the free list: the list stays well formed and no byte
  outside the page changes.  Any other argument panics.
\<close>

theorem kfree_spec:
  assumes "kmem_ready s ps" and "v \<notin> set ps"
  shows "if kpage s v
    then \<exists>t. kfree v s = Ok () t \<and> kmem_ready t (v # ps)
           \<and> (\<forall>x. \<not> x - v < PGSIZE \<longrightarrow> mem t x = mem s x)
    else kfree v s = Stop (Panic ''kfree'')"
proof (cases "kpage s v")
  case True
  then have "v mod PGSIZE = 0" by (simp add: kpage_def)
  with True show ?thesis
    using kfree_Ok [OF assms(1) True] kfree_ready [OF assms(1) True assms(2)]
    by (auto simp: kfree_mem_frame)
next
  case False
  then show ?thesis by (auto simp: kfree_def kop_simps kpage_def not_le)
qed

theorem kfree_spec_witness:
  "(\<exists>t. kfree 0x80401000 ex_kmem = Ok () t \<and> kmem_ready t [0x80401000, 0x80400000])
   \<and> kfree 0x80401004 ex_kmem = Stop (Panic ''kfree'')"
proof -
  have "kpage ex_kmem 0x80401000" "\<not> kpage ex_kmem 0x80401004"
    by (simp_all add: kpage_def ex_kmem_def PGSIZE_def v2p_def layout_defs)
  then show ?thesis
    using kfree_spec [OF ex_kmem_ready, of "0x80401000"] kfree_spec [OF ex_kmem_ready, of "0x80401004"]
    by auto
qed

text \<open>
  C30 (no double allocation). \<open>n\<close> allocations in a row hand out \<open>n\<close> different non-null pages
  none of which is still on the free list, and freeing them in reverse order restores it.
\<close>

theorem kalloc_pages_fresh:
  assumes "kmem_ready s ps" and "n \<le> length ps"
  shows "\<exists>as t. kalloc_pages n s = Ok as t \<and> distinct as \<and> length as = n \<and> 0 \<notin> set as
    \<and> kmem_ready t (drop n ps) \<and> set as \<inter> set (drop n ps) = {}
    \<and> (\<exists>u. kfree_pages (rev as) t = Ok () u \<and> kmem_ready u ps)"
proof -
  from kalloc.alloc_free_round [OF assms] obtain as t u
    where r: "kalloc.alloc_n n s = Ok as t" "kalloc.free_all (rev as) t = Ok () u" "kmem_ready u ps"
    by blast
  with kalloc.alloc_n_fresh [OF assms r(1)] show ?thesis
    unfolding kalloc_pages_eq kfree_pages_eq by blast
qed

theorem kalloc_pages_fresh_witness:
  "\<exists>as t. kalloc_pages 1 ex_kmem = Ok as t \<and> length as = 1 \<and> kmem_ready t []"
proof -
  have "1 \<le> length [0x80400000 :: addr]" by simp
  from kalloc_pages_fresh [OF ex_kmem_ready this] show ?thesis by auto
qed

text \<open>
  C31 (freerange). Freeing the range from \<open>vstart\<close> to \<open>vend\<close> terminates without a panic and puts
  every whole page of the range, and nothing else, on the free list.
\<close>

theorem freerange_spec:
  assumes "kmem_ready s ps" and "KERNBASE \<le> kend s" and "kend s \<le> vstart"
    and "vstart \<le> vend" and "vend \<le> PHYSLIM"
    and "n = (unat vend - unat (PGROUNDUP vstart)) div 4096"
    and "set (pages_from (PGROUNDUP vstart) n) \<inter> set ps = {}"
  shows "\<exists>t. freerange vstart vend s = Ok () t
    \<and> kmem_ready t (rev (pages_from (PGROUNDUP vstart) n) @ ps)"
proof -
  let ?p = "PGROUNDUP vstart"
  have vs: "unat vstart \<le> 0x8E000000"
    using assms(4,5) by (simp add: word_le_nat_alt unat_PHYSLIM)
  then have up: "unat ?p = (unat vstart + 4095) div 4096 * 4096"
    by (simp add: unat_PGROUNDUP)
  have ge: "unat vstart \<le> unat ?p"
    using mult_div_mod_eq [of 4096 "unat vstart + 4095"] mod_less_divisor [of 4096 "unat vstart + 4095"]
    unfolding up by linarith
  have "(unat vstart + 4095) div 4096 \<le> (0x8E000000 + 4095) div 4096"
    using vs by (intro div_le_mono) simp
  then have "?p \<le> PHYSLIM" unfolding word_le_nat_alt unat_PHYSLIM up by simp
  moreover have "kend s \<le> ?p" using assms(3) ge by (simp add: word_le_nat_alt)
  moreover have "4096 * n \<le> 2 ^ 32"
  proof -
    have "4096 * n \<le> unat vend - unat ?p"
      unfolding assms(6) by (simp add: mult.commute)
    also have "\<dots> \<le> 0x8E000000" using assms(5) by (simp add: word_le_nat_alt unat_PHYSLIM)
    finally show ?thesis by simp
  qed
  ultimately show ?thesis
    using freerange_from_spec [OF assms(1) PGROUNDUP_aligned _ assms(2) _ assms(5,6,7)
        distinct_pages_from]
    unfolding freerange_def by blast
qed

theorem freerange_spec_witness:
  "\<exists>t. freerange 0x80500010 0x80503000 ex_kmem = Ok () t
     \<and> kmem_ready t [0x80502000, 0x80501000, 0x80400000]"
proof -
  have up: "PGROUNDUP 0x80500010 = 0x80501000"
    by (simp add: PGROUNDUP_def PGSIZE_def)
  have two: "pages_from 0x80501000 2 = [0x80501000, 0x80502000]"
    by (simp add: pages_from_def upt_rec)
  have "\<exists>t. freerange 0x80500010 0x80503000 ex_kmem = Ok () t
     \<and> kmem_ready t (rev (pages_from (PGROUNDUP 0x80500010) 2) @ [0x80400000])"
    by (rule freerange_spec [OF ex_kmem_ready])
      (simp_all add: up two ex_kmem_def layout_defs PHYSLIM_def p2v_def)
  then show ?thesis by (simp add: up two)
qed

end
