(* ===== verification/Vm.thy ===== *)
theory Vm
  imports Kalloc
begin

unbundle bit_operations_syntax

text \<open>
  vm.c: two-level page tables in memory.  A page directory and its page tables are pages of
  1024 four-byte entries, read and written through the kernel's direct map, so an entry is
  a word of the state's memory and a \<open>pte_t *\<close> is its address.  \<open>kdata\<close> is the linker symbol
  \<open>data\<close>.  The segment descriptor tables are not part of the state; the page table
  register and the kernel stack pointer of the task state segment are.
\<close>

section \<open>State and operations\<close>

record kvm = kmem +
  kpgdir :: addr
  kdata :: addr

definition lcr3 :: "uint \<Rightarrow> ('e kcore_scheme, unit) kop" where
  "lcr3 v = modify (set_mycpu (\<lambda>c. c\<lparr>cr3 := v\<rparr>))"

definition pte_at :: "addr \<Rightarrow> uint \<Rightarrow> addr" where
  "pte_at tab i = tab + 4 * i"

definition walkpgdir :: "addr \<Rightarrow> addr \<Rightarrow> bool \<Rightarrow> ('e kmem_scheme, addr) kop" where
  "walkpgdir pgdir va alloc =
     bnd (gets (\<lambda>s. ld32 (mem s) (pte_at pgdir (PDX va)))) (\<lambda>pde.
     if pde AND PTE_P \<noteq> 0 then ret (pte_at (p2v (PTE_ADDR pde)) (PTX va))
     else if \<not> alloc then ret 0
     else
       bnd kalloc (\<lambda>pgtab.
       if pgtab = 0 then ret 0
       else
         seq (modify (\<lambda>s. s\<lparr>mem := memset pgtab 0 PGSIZE (mem s)\<rparr>))
         (seq (modify (\<lambda>s. s\<lparr>mem :=
                 st32 (pte_at pgdir (PDX va)) (v2p pgtab OR PTE_P OR PTE_W OR PTE_U) (mem s)\<rparr>))
              (ret (pte_at pgtab (PTX va))))))"

text \<open>
  \<open>mappages\<close> loops from the first to the last page, both page-aligned, so it makes
  \<open>(last - a) / PGSIZE + 1\<close> iterations; \<open>n\<close> counts the remaining ones.
\<close>

fun mappages_loop :: "nat \<Rightarrow> addr \<Rightarrow> addr \<Rightarrow> addr \<Rightarrow> uint \<Rightarrow> uint \<Rightarrow> ('e kmem_scheme, int) kop" where
  "mappages_loop 0 pgdir a last_a pa perm = spin"
| "mappages_loop (Suc n) pgdir a last_a pa perm =
     bnd (walkpgdir pgdir a True) (\<lambda>pte.
     if pte = 0 then ret (- 1)
     else
       bnd (gets (\<lambda>s. ld32 (mem s) pte)) (\<lambda>e.
       if e AND PTE_P \<noteq> 0 then panic ''remap''
       else
         seq (modify (\<lambda>s. s\<lparr>mem := st32 pte (pa OR perm OR PTE_P) (mem s)\<rparr>))
         (if a = last_a then ret 0
          else mappages_loop n pgdir (a + PGSIZE) last_a (pa + PGSIZE) perm)))"

definition mappages :: "addr \<Rightarrow> addr \<Rightarrow> uint \<Rightarrow> uint \<Rightarrow> uint \<Rightarrow> ('e kmem_scheme, int) kop" where
  "mappages pgdir va siz pa perm =
     (let a = PGROUNDDOWN va; last_a = PGROUNDDOWN (va + siz - 1)
      in mappages_loop (Suc (unat (last_a - a) div 4096)) pgdir a last_a pa perm)"

record kmapent =
  virt :: addr
  phys_start :: uint
  phys_end :: uint
  kperm :: uint

definition kmap :: "addr \<Rightarrow> kmapent list" where
  "kmap data =
    [\<lparr>virt = KERNBASE, phys_start = 0, phys_end = EXTMEM, kperm = PTE_W\<rparr>,
     \<lparr>virt = KERNLINK, phys_start = v2p KERNLINK, phys_end = v2p data, kperm = 0\<rparr>,
     \<lparr>virt = data, phys_start = v2p data, phys_end = PHYSTOP, kperm = PTE_W\<rparr>,
     \<lparr>virt = DEVSPACE, phys_start = DEVSPACE, phys_end = 0, kperm = PTE_W\<rparr>]"

definition setupkvm :: "('e kvm_scheme, addr) kop" where
  "setupkvm =
     bnd kalloc (\<lambda>pgdir.
     if pgdir = 0 then ret 0
     else
       seq (modify (\<lambda>s. s\<lparr>mem := memset pgdir 0 PGSIZE (mem s)\<rparr>))
       (if p2v PHYSTOP > DEVSPACE then panic ''PHYSTOP too high''
        else
          bnd (gets (\<lambda>s. kmap (kdata s))) (\<lambda>ks.
          bnd (loopE ks (\<lambda>k.
                 bnd (mappages pgdir (virt k) (phys_end k - phys_start k) (phys_start k) (kperm k))
                 (\<lambda>r. ret (if r < 0 then Some 0 else None)))) (\<lambda>early.
          case early of Some z \<Rightarrow> ret z | None \<Rightarrow> ret pgdir))))"

definition switchkvm :: "('e kvm_scheme, unit) kop" where
  "switchkvm = bnd (gets kpgdir) (\<lambda>d. lcr3 (v2p d))"

definition kvmalloc :: "('e kvm_scheme, unit) kop" where
  "kvmalloc =
     bnd setupkvm (\<lambda>d.
     seq (modify (\<lambda>s. s\<lparr>kpgdir := d\<rparr>))
         switchkvm)"

text \<open>
  \<open>inituvm\<close> uses the page that \<open>kalloc\<close> returns without a test: a null result makes the
  \<open>memset\<close> write through the null pointer.  \<open>init\<close> is the kernel address of the code.
\<close>

definition inituvm :: "addr \<Rightarrow> addr \<Rightarrow> uint \<Rightarrow> ('e kmem_scheme, unit) kop" where
  "inituvm pgdir init sz =
     (if sz \<ge> PGSIZE then panic ''inituvm: more than a page''
      else
        bnd kalloc (\<lambda>pg.
        if pg = 0 then fault ''inituvm''
        else
          seq (modify (\<lambda>s. s\<lparr>mem := memset pg 0 PGSIZE (mem s)\<rparr>))
          (bnd (mappages pgdir 0 PGSIZE (v2p pg) (PTE_W OR PTE_U)) (\<lambda>_.
           modify (\<lambda>s. s\<lparr>mem := memmove pg init sz (mem s)\<rparr>)))))"

text \<open>
  The pages \<open>a, a + PGSIZE, ...\<close> below \<open>b\<close>: the values of the loop variable in
  \<open>for(; a < b; a += PGSIZE)\<close> when \<open>b\<close> is at most the last page boundary, so that
  \<open>a\<close> does not wrap around.
\<close>

definition page_range :: "addr \<Rightarrow> addr \<Rightarrow> addr list" where
  "page_range a b = pages_from a ((unat b - unat a + 4095) div 4096)"

function deallocuvm_loop :: "addr \<Rightarrow> uint \<Rightarrow> uint \<Rightarrow> ('e kmem_scheme, unit) kop" where
  "deallocuvm_loop pgdir oldsz a s =
     (if a < oldsz then
        (case walkpgdir pgdir a False s of
           Stop h \<Rightarrow> Stop h
         | Ok pte t \<Rightarrow>
             let e = ld32 (mem t) pte; pa = PTE_ADDR e;
                 a' = (if pte = 0 then a + of_nat (NPTENTRIES - 1) * PGSIZE else a);
                 r = (if pte = 0 \<or> e AND PTE_P = 0 then Ok () t
                      else if pa = 0 then panic ''kfree'' t
                      else seq (kfree (p2v pa)) (modify (\<lambda>s. s\<lparr>mem := st32 pte 0 (mem s)\<rparr>)) t)
             in case r of
                  Stop h \<Rightarrow> Stop h
                | Ok _ u \<Rightarrow> if a < a' + PGSIZE then deallocuvm_loop pgdir oldsz (a' + PGSIZE) u
                            else Stop Spin)
      else Ok () s)"
  by pat_completeness auto

termination
proof (relation "measure (\<lambda>(pgdir, oldsz, a, s). 2 ^ 32 - unat a)", goal_cases)
  case 1
  show ?case by simp
next
  case (2 pgdir oldsz a s pte t e pa a' r u v)
  then show ?case using unsigned_less [of a, where 'a = nat]
    by (simp add: word_less_nat_alt diff_less_mono2)
qed

declare deallocuvm_loop.simps [simp del]

definition deallocuvm :: "addr \<Rightarrow> uint \<Rightarrow> uint \<Rightarrow> ('e kmem_scheme, uint) kop" where
  "deallocuvm pgdir oldsz newsz =
     (if newsz \<ge> oldsz then ret oldsz
      else seq (deallocuvm_loop pgdir oldsz (PGROUNDUP newsz)) (ret newsz))"

definition allocuvm :: "addr \<Rightarrow> uint \<Rightarrow> uint \<Rightarrow> ('e kmem_scheme, uint) kop" where
  "allocuvm pgdir oldsz newsz =
     (if newsz \<ge> KERNBASE then ret 0
      else if newsz < oldsz then ret oldsz
      else
        bnd (loopE (page_range (PGROUNDUP oldsz) newsz) (\<lambda>a.
          bnd kalloc (\<lambda>pg.
          if pg = 0 then
            bnd (deallocuvm pgdir newsz oldsz) (\<lambda>_. ret (Some 0))
          else
            seq (modify (\<lambda>s. s\<lparr>mem := memset pg 0 PGSIZE (mem s)\<rparr>))
            (bnd (mappages pgdir a PGSIZE (v2p pg) (PTE_W OR PTE_U)) (\<lambda>_. ret None)))))
        (\<lambda>early. case early of Some r \<Rightarrow> ret r | None \<Rightarrow> ret newsz))"

definition freevm :: "addr \<Rightarrow> ('e kmem_scheme, unit) kop" where
  "freevm pgdir =
     (if pgdir = 0 then panic ''freevm: no pgdir''
      else
        bnd (deallocuvm pgdir KERNBASE 0) (\<lambda>_.
        seq (forM [0..<NPDENTRIES] (\<lambda>i.
               bnd (gets (\<lambda>s. ld32 (mem s) (pte_at pgdir (of_nat i)))) (\<lambda>pde.
               whenM (pde AND PTE_P \<noteq> 0) (kfree (p2v (PTE_ADDR pde))))))
            (kfree pgdir)))"

definition clearpteu :: "addr \<Rightarrow> addr \<Rightarrow> ('e kmem_scheme, unit) kop" where
  "clearpteu pgdir uva =
     bnd (walkpgdir pgdir uva False) (\<lambda>pte.
     if pte = 0 then panic ''clearpteu''
     else modify (\<lambda>s. s\<lparr>mem := st32 pte (ld32 (mem s) pte AND NOT PTE_U) (mem s)\<rparr>))"

definition copyuvm :: "addr \<Rightarrow> uint \<Rightarrow> ('e kvm_scheme, addr) kop" where
  "copyuvm pgdir sz =
     bnd setupkvm (\<lambda>d.
     if d = 0 then ret 0
     else
       bnd (loopE (page_range PGSIZE sz) (\<lambda>i.
         bnd (walkpgdir pgdir i False) (\<lambda>pte.
         if pte = 0 then panic ''copyuvm: pte should exist''
         else
           bnd (gets (\<lambda>s. ld32 (mem s) pte)) (\<lambda>e.
           if e AND PTE_P = 0 then panic ''copyuvm: page not present''
           else
             bnd kalloc (\<lambda>pg.
             if pg = 0 then ret (Some ())
             else
               seq (modify (\<lambda>s. s\<lparr>mem := memmove pg (p2v (PTE_ADDR e)) PGSIZE (mem s)\<rparr>))
               (bnd (mappages d i PGSIZE (v2p pg) (PTE_FLAGS e)) (\<lambda>r.
                ret (if r < 0 then Some () else None)))))))) (\<lambda>bad.
       case bad of
         None \<Rightarrow> ret d
       | Some _ \<Rightarrow> seq (freevm d) (ret 0)))"

text \<open>\<open>uva2ka\<close> reads \<open>*pte\<close> without testing \<open>pte\<close> for null.\<close>

definition uva2ka :: "addr \<Rightarrow> addr \<Rightarrow> ('e kmem_scheme, addr) kop" where
  "uva2ka pgdir uva =
     bnd (walkpgdir pgdir uva False) (\<lambda>pte.
     if pte = 0 then fault ''uva2ka''
     else
       bnd (gets (\<lambda>s. ld32 (mem s) pte)) (\<lambda>e.
       if e AND PTE_P = 0 then ret 0
       else if e AND PTE_U = 0 then ret 0
       else ret (p2v (PTE_ADDR e))))"

text \<open>
  \<open>copyout\<close> copies page by page; \<open>bytes\<close> is the kernel buffer \<open>p\<close>, which the callers keep
  in their stack frame.  Its length is \<open>len\<close>, and each iteration drops what it has copied.
\<close>

function copyout :: "addr \<Rightarrow> addr \<Rightarrow> uchar list \<Rightarrow> ('e kmem_scheme, int) kop" where
  "copyout pgdir va bytes s =
     (if bytes = [] then Ok 0 s
      else
        let va0 = PGROUNDDOWN va
        in case uva2ka pgdir va0 s of
             Stop h \<Rightarrow> Stop h
           | Ok pa0 t \<Rightarrow>
               if pa0 = 0 then Ok (- 1) t
               else
                 let n = min (4096 - unat (va - va0)) (length bytes)
                 in copyout pgdir (va0 + PGSIZE) (drop n bytes)
                      (t\<lparr>mem := write_bytes (pa0 + (va - va0)) (take n bytes) (mem t)\<rparr>))"
  by pat_completeness auto

termination
proof (relation "measure (\<lambda>(pgdir, va, bytes, s). length bytes)", goal_cases)
  case 1
  show ?case by simp
next
  case (2 pgdir va bytes s va0 pa0 t n)
  then have "unat (va - va0) < 4096" by (simp add: unat_page_offset)
  with 2 show ?case by (cases bytes) (auto simp: min_def)
qed

declare copyout.simps [simp del]

end
