(* ===== verification/Sched.thy ===== *)
theory Sched
  imports Vm
begin

unbundle bit_operations_syntax

text \<open>
  The process table of proc.h and the scheduling half of proc.c: scheduler, sched, yield,
  sleep, wakeup, kill and the thread variants of them.

  \<open>swtch\<close> saves the registers of the caller and continues in another kernel context.  In the
  model an operation that reaches \<open>swtch\<close> stops with \<open>Swtch s\<close>, where \<open>s\<close> is the state in which
  the other context continues; what the C function does after \<open>swtch\<close> returns is the
  operation named \<open>..._tail\<close>, which runs when the scheduler switches back to the process.
\<close>

section \<open>State\<close>

datatype procstate = UNUSED | EMBRYO | SLEEPING | RUNNABLE | RUNNING | ZOMBIE

text \<open>
  Wait channels are addresses of kernel objects: a process, the tick counter, a buffer, an
  inode, the log, the two counters of a pipe, the console input buffer.
\<close>

datatype chan =
    ChProc nat | ChTicks | ChBuf nat | ChInode nat | ChLog | ChNread addr | ChNwrite addr | ChInput

text \<open>
  \<open>struct proc\<close>.  Pointers to table entries are indices (\<open>None\<close> is the null pointer);
  \<open>tf\<close> and \<open>pcontext\<close> are the addresses of the trap frame and of the saved context in
  the kernel stack page; \<open>killed\<close> is only tested for being non-zero.
\<close>

record proc =
  sz :: uint
  pgdir :: addr
  kstack :: addr
  state :: procstate
  pid :: int
  parent :: "nat option"
  tf :: addr
  pcontext :: addr
  chan :: "chan option"
  killed :: bool
  ofile :: "nat option list"
  cwd :: "nat option"
  pname :: "uchar list"
  pstack :: addr
  isthread :: int

record ksched = kvm +
  ptable :: "proc list"
  initproc :: "nat option"
  nextpid :: int

definition upd_proc :: "nat \<Rightarrow> (proc \<Rightarrow> proc) \<Rightarrow> 'e ksched_scheme \<Rightarrow> 'e ksched_scheme" where
  "upd_proc i f s = s\<lparr>ptable := (ptable s)[i := f (ptable s ! i)]\<rparr>"

text \<open>The current process \<open>proc\<close>; using it when it is null is a null dereference.\<close>

definition curproc :: "('e ksched_scheme, nat) kop" where
  "curproc = (\<lambda>s. case cproc (mycpu s) of Some i \<Rightarrow> Ok i s | None \<Rightarrow> Stop (Fault ''proc''))"

definition swtch :: "('e ksched_scheme, unit) kop" where
  "swtch = (\<lambda>s. Stop (Swtch s))"

section \<open>Operations\<close>

definition pinit :: "('e ksched_scheme, unit) kop" where
  "pinit = initlock PtableLock ''ptable''"

text \<open>
  vm.c \<open>switchuvm\<close>: the stack pointer of the task state segment comes from the current
  process, the page table from the argument.
\<close>

definition switchuvm :: "nat \<Rightarrow> ('e ksched_scheme, unit) kop" where
  "switchuvm p =
     seq pushcli
     (bnd curproc (\<lambda>i.
      seq (modify (\<lambda>s. set_mycpu (\<lambda>c. c\<lparr>esp0 := kstack (ptable s ! i) + KSTACKSIZE\<rparr>) s))
      (bnd (gets (\<lambda>s. pgdir (ptable s ! p))) (\<lambda>d.
       if d = 0 then panic ''switchuvm: no pgdir''
       else seq (lcr3 (v2p d)) popcli))))"

definition sched_tail :: "bool \<Rightarrow> ('e ksched_scheme, unit) kop" where
  "sched_tail ie = modify (set_mycpu (\<lambda>c. c\<lparr>intena := ie\<rparr>))"

definition sched :: "('e ksched_scheme, unit) kop" where
  "sched =
     bnd (gets (holding PtableLock)) (\<lambda>h.
     if \<not> h then panic ''sched ptable.lock''
     else
       bnd (gets mycpu) (\<lambda>c.
       bnd curproc (\<lambda>i.
       if ncli c \<noteq> 1 then panic ''sched locks''
       else
         bnd (gets (\<lambda>s. state (ptable s ! i))) (\<lambda>st.
         if st = RUNNING then panic ''sched running''
         else
           bnd readeflags_if (\<lambda>f.
           if f then panic ''sched interruptible''
           else
             bnd (gets (\<lambda>s. intena (mycpu s))) (\<lambda>ie.
             seq swtch (sched_tail ie)))))))"

definition tsched :: "('e ksched_scheme, unit) kop" where
  "tsched =
     bnd (gets (holding PtableLock)) (\<lambda>h.
     if \<not> h then panic ''tsched ptable.lock''
     else
       bnd (gets mycpu) (\<lambda>c.
       bnd curproc (\<lambda>i.
       if ncli c \<noteq> 1 then panic ''sched locks''
       else
         bnd (gets (\<lambda>s. state (ptable s ! i))) (\<lambda>st.
         if st = RUNNING then panic ''tsched running''
         else
           bnd readeflags_if (\<lambda>f.
           if f then panic ''tsched interruptible''
           else
             bnd (gets (\<lambda>s. intena (mycpu s))) (\<lambda>ie.
             seq swtch (sched_tail ie)))))))"

definition yield_tail :: "('e ksched_scheme, unit) kop" where
  "yield_tail = release PtableLock"

definition yield :: "('e ksched_scheme, unit) kop" where
  "yield =
     seq (acquire PtableLock)
     (bnd curproc (\<lambda>i.
      seq (modify (upd_proc i (\<lambda>p. p\<lparr>state := RUNNABLE\<rparr>)))
      (seq sched yield_tail)))"

definition thread_yield3 :: "int \<Rightarrow> ('e ksched_scheme, unit) kop" where
  "thread_yield3 tid = yield"

text \<open>\<open>sleep\<close>; its callers pass the address of a lock, so the null test of \<open>lk\<close> is vacuous.\<close>

definition sleep_tail :: "lockid \<Rightarrow> ('e ksched_scheme, unit) kop" where
  "sleep_tail lk =
     bnd curproc (\<lambda>i.
     seq (modify (upd_proc i (\<lambda>p. p\<lparr>chan := None\<rparr>)))
     (if lk \<noteq> PtableLock then seq (release PtableLock) (acquire lk) else ret ()))"

definition sleep :: "chan \<Rightarrow> lockid \<Rightarrow> ('e ksched_scheme, unit) kop" where
  "sleep ch lk =
     bnd (gets (\<lambda>s. cproc (mycpu s))) (\<lambda>pr.
     case pr of
       None \<Rightarrow> panic ''sleep''
     | Some i \<Rightarrow>
         seq (if lk \<noteq> PtableLock then seq (acquire PtableLock) (release lk) else ret ())
         (seq (modify (upd_proc i (\<lambda>p. p\<lparr>chan := Some ch\<rparr>)))
         (seq (modify (upd_proc i (\<lambda>p. p\<lparr>state := SLEEPING\<rparr>)))
         (seq sched (sleep_tail lk)))))"

text \<open>\<open>wakeup1\<close> may be called with a null channel (the parent of a process without one).\<close>

definition wake :: "chan option \<Rightarrow> proc \<Rightarrow> proc" where
  "wake ch p = (if state p = SLEEPING \<and> chan p = ch then p\<lparr>state := RUNNABLE\<rparr> else p)"

definition wakeup1 :: "chan option \<Rightarrow> ('e ksched_scheme, unit) kop" where
  "wakeup1 ch = modify (\<lambda>s. s\<lparr>ptable := map (wake ch) (ptable s)\<rparr>)"

definition wakeup :: "chan \<Rightarrow> ('e ksched_scheme, unit) kop" where
  "wakeup ch = seq (acquire PtableLock) (seq (wakeup1 (Some ch)) (release PtableLock))"

definition twakeup :: "int \<Rightarrow> ('e ksched_scheme, unit) kop" where
  "twakeup tid =
     seq (acquire PtableLock)
     (seq (forM [0..<NPROC] (\<lambda>i.
             bnd (gets (\<lambda>s. ptable s ! i)) (\<lambda>p.
             whenM (state p = SLEEPING \<and> pid p = tid \<and> isthread p = 1)
               (wakeup1 (Some (ChProc i))))))
          (release PtableLock))"

definition tsleep :: "('e ksched_scheme, unit) kop" where
  "tsleep =
     seq (acquire PtableLock)
     (bnd curproc (\<lambda>i.
      seq (sleep (ChProc i) PtableLock)
          (release PtableLock)))"

definition kill :: "int \<Rightarrow> ('e ksched_scheme, int) kop" where
  "kill n =
     seq (acquire PtableLock)
     (bnd (gets (\<lambda>s. find_index (\<lambda>p. pid p = n) (ptable s))) (\<lambda>found.
      case found of
        Some i \<Rightarrow>
          seq (modify (upd_proc i (\<lambda>p. p\<lparr>killed := True\<rparr>)))
          (seq (modify (upd_proc i (\<lambda>p. if state p = SLEEPING then p\<lparr>state := RUNNABLE\<rparr> else p)))
          (seq (release PtableLock) (ret 0)))
      | None \<Rightarrow> seq (release PtableLock) (ret (- 1))))"

text \<open>
  \<open>scheduler\<close>.  \<open>scheduler_scan i\<close> is the loop over the table from entry \<open>i\<close> on: \<open>Some j\<close>
  when it has switched to process \<open>j\<close>, \<open>None\<close> when the round is over.  \<open>scheduler_tail j\<close>
  continues after the switch back from \<open>j\<close>.
\<close>

definition next_runnable :: "nat \<Rightarrow> proc list \<Rightarrow> nat option" where
  "next_runnable i ps = map_option (\<lambda>k. i + k) (find_index (\<lambda>p. state p = RUNNABLE) (drop i ps))"

definition scheduler_scan :: "nat \<Rightarrow> ('e ksched_scheme, nat option) kop" where
  "scheduler_scan i =
     bnd (gets (\<lambda>s. next_runnable i (ptable s))) (\<lambda>found.
     case found of
       None \<Rightarrow> seq (release PtableLock) (ret None)
     | Some j \<Rightarrow>
         seq (modify (set_mycpu (\<lambda>c. c\<lparr>cproc := Some j\<rparr>)))
         (seq (switchuvm j)
         (seq (modify (upd_proc j (\<lambda>p. p\<lparr>state := RUNNING\<rparr>)))
              (ret (Some j)))))"

definition scheduler_round :: "('e ksched_scheme, nat option) kop" where
  "scheduler_round = seq sti (seq (acquire PtableLock) (scheduler_scan 0))"

definition scheduler_tail :: "nat \<Rightarrow> ('e ksched_scheme, nat option) kop" where
  "scheduler_tail j =
     seq switchkvm
     (seq (modify (set_mycpu (\<lambda>c. c\<lparr>cproc := None\<rparr>)))
          (scheduler_scan (Suc j)))"

section \<open>The layer's simplification rules\<close>

lemma ksched_lock_simps [simp]:
  "ptable (taken lk s) = ptable s" "initproc (taken lk s) = initproc s"
  "nextpid (taken lk s) = nextpid s" "kpgdir (taken lk v) = kpgdir v" "kdata (taken lk v) = kdata v"
  "ptable (given lk s) = ptable s" "ptable (settled s) = ptable s"
  "initproc (settled s) = initproc s" "nextpid (settled s) = nextpid s"
  "kpgdir (settled v) = kpgdir v" "kdata (settled v) = kdata v"
  "ptable (set_mycpu f s) = ptable s" "kpgdir (set_mycpu f v) = kpgdir v"
  by (simp_all add: taken_def given_def settled_def core_defs)

lemma ksched_upd_simps [simp]:
  "ptable_update f (taken lk s) = taken lk (ptable_update f s)"
  "ptable_update f (settled s) = settled (ptable_update f s)"
  "nextpid_update g (taken lk s) = taken lk (nextpid_update g s)"
  "nextpid_update g (settled s) = settled (nextpid_update g s)"
  "idle lk (ptable_update f s) = idle lk s" "cli_wf (ptable_update f s) = cli_wf s"
  "mycpu (ptable_update f s) = mycpu s" "holding lk (ptable_update f s) = holding lk s"
  "idle lk (nextpid_update g s) = idle lk s" "cli_wf (nextpid_update g s) = cli_wf s"
  "mycpu (nextpid_update g s) = mycpu s"
  by (simp_all add: taken_def settled_def core_defs idle_def cli_wf_def holding_def)

lemma ptable_update_id [simp]: "ptable_update (\<lambda>_. ptable s) s = s"
  by simp

lemma upd_proc_simps [simp]:
  "upd_proc i f (taken lk s) = taken lk (upd_proc i f s)"
  "upd_proc i f (settled s) = settled (upd_proc i f s)"
  "idle lk (upd_proc i f s) = idle lk s" "cli_wf (upd_proc i f s) = cli_wf s"
  "mycpu (upd_proc i f s) = mycpu s" "holding lk (upd_proc i f s) = holding lk s"
  "ptable (upd_proc i f s) = (ptable s)[i := f (ptable s ! i)]"
  "me (upd_proc i f s) = me s" "cpus (upd_proc i f s) = cpus s" "locks (upd_proc i f s) = locks s"
  by (simp_all add: upd_proc_def)

lemma cpu_upd_simps [simp]:
  "me (set_mycpu f s) = me s" "locks (set_mycpu f s) = locks s"
  "idle lk (set_mycpu f s) = idle lk s" "holding lk (set_mycpu f s) = holding lk s"
  "cpus (set_mycpu f s) c = (if c = me s then f (cpus s c) else cpus s c)"
  by (simp_all add: core_defs idle_def holding_def)

section \<open>wakeup, kill\<close>

lemma wakeup_eq:
  assumes "idle PtableLock s" and "cli_wf s"
  shows "wakeup ch s = Ok () (settled (s\<lparr>ptable := map (wake (Some ch)) (ptable s)\<rparr>))"
  using assms by (simp add: wakeup_def wakeup1_def kop_simps)


lemma kill_eq:
  assumes "idle PtableLock s" and "cli_wf s"
  shows "kill n s =
    (case find_index (\<lambda>p. pid p = n) (ptable s) of
       None \<Rightarrow> Ok (- 1) (settled s)
     | Some i \<Rightarrow> Ok 0 (settled (upd_proc i (\<lambda>p. p\<lparr>killed := True,
         state := (if state p = SLEEPING then RUNNABLE else state p)\<rparr>) s)))"
proof (cases "find_index (\<lambda>p. pid p = n) (ptable s)")
  case None
  with assms show ?thesis by (simp add: kill_def kop_simps)
next
  case (Some i)
  then have i: "i < length (ptable s)" by (auto dest: find_index_SomeD)
  have "upd_proc i (\<lambda>p. if state p = SLEEPING then p\<lparr>state := RUNNABLE\<rparr> else p)
      (upd_proc i (\<lambda>p. p\<lparr>killed := True\<rparr>) s) = upd_proc i (\<lambda>p. p\<lparr>killed := True,
         state := (if state p = SLEEPING then RUNNABLE else state p)\<rparr>) s"
    using i by (auto simp: upd_proc_def intro!: arg_cong [where f = "list_update (ptable s) i"])
  with Some assms show ?thesis by (simp add: kill_def kop_simps)
qed

section \<open>Giving up the processor\<close>

lemma sched_eq:
  assumes "holding PtableLock s" and "ncli (mycpu s) = 1" and "cproc (mycpu s) = Some i"
    and "state (ptable s ! i) \<noteq> RUNNING" and "\<not> iflag (mycpu s)"
  shows "sched s = Stop (Swtch s)"
  using assms by (simp add: sched_def curproc_def swtch_def readeflags_if_def kop_simps)

lemma yield_eq:
  assumes "idle PtableLock s" and "cli_wf s" and "ncli (mycpu s) = 0"
    and "cproc (mycpu s) = Some i" and "i < length (ptable s)"
  shows "yield s = Stop (Swtch (taken PtableLock (upd_proc i (\<lambda>p. p\<lparr>state := RUNNABLE\<rparr>) s)))"
proof -
  let ?t = "taken PtableLock (upd_proc i (\<lambda>p. p\<lparr>state := RUNNABLE\<rparr>) s)"
  have "sched ?t = Stop (Swtch ?t)" using assms by (intro sched_eq [where i = i]) simp_all
  with assms show ?thesis by (simp add: yield_def curproc_def kop_simps)
qed

definition asleep :: "nat \<Rightarrow> chan \<Rightarrow> 'e ksched_scheme \<Rightarrow> 'e ksched_scheme" where
  "asleep i ch s = upd_proc i (\<lambda>p. p\<lparr>chan := Some ch, state := SLEEPING\<rparr>) s"

lemma asleep_steps:
  "i < length (ptable s) \<Longrightarrow> upd_proc i (\<lambda>p. p\<lparr>state := SLEEPING\<rparr>)
     (upd_proc i (\<lambda>p. p\<lparr>chan := Some ch\<rparr>) s) = asleep i ch s"
  by (simp add: asleep_def upd_proc_def)

lemma sleep_ptable_eq:
  assumes "holding PtableLock s" and "ncli (mycpu s) = 1" and "\<not> iflag (mycpu s)"
    and "cproc (mycpu s) = Some i" and "i < length (ptable s)"
  shows "sleep ch PtableLock s = Stop (Swtch (asleep i ch s))"
proof -
  have "sched (asleep i ch s) = Stop (Swtch (asleep i ch s))"
    using assms by (intro sched_eq [where i = i]) (simp_all add: asleep_def)
  with assms show ?thesis by (simp add: sleep_def kop_simps asleep_steps)
qed

lemma sleep_eq:
  assumes "holding lk s" and "lk \<noteq> PtableLock" and "idle PtableLock s"
    and "ncli (mycpu s) = 1" and "\<not> iflag (mycpu s)"
    and "cproc (mycpu s) = Some i" and "i < length (ptable s)"
  shows "sleep ch lk s = Stop (Swtch (asleep i ch (given lk (taken PtableLock s))))"
proof -
  let ?t = "given lk (taken PtableLock s)"
  have r: "release lk (taken PtableLock s) = Ok () ?t"
    using assms by (intro release_eq) simp_all
  have "holding PtableLock ?t" using assms(2) by simp
  then have "sched (asleep i ch ?t) = Stop (Swtch (asleep i ch ?t))"
    using assms by (intro sched_eq [where i = i]) (simp_all add: asleep_def popped_def)
  with r assms show ?thesis by (simp add: sleep_def kop_simps asleep_steps)
qed

lemma wakeup_spins:
  assumes "holding PtableLock s" and "c \<noteq> me s"
  shows "wakeup ch (s\<lparr>me := c\<rparr>) = Stop Spin"
  using assms
  by (simp add: wakeup_def acquire_def pushcli_eq holding_def xchg_locked_def core_defs kop_simps)


section \<open>Processors and processes\<close>

text \<open>
  Runs of the whole machine at the granularity of the process table's critical sections.
  A step executes on some processor \<open>c\<close>: an idle processor's scheduler finds a process and
  the process, continuing after its own \<open>swtch\<close>, releases the table lock; or finds none;
  the running process yields or sleeps and the scheduler goes on scanning; or the
  running process calls \<open>wakeup\<close>, \<open>twakeup\<close> or \<open>kill\<close>.
\<close>

definition enter :: "nat option \<Rightarrow> ('e ksched_scheme, unit) kop" where
  "enter r = (case r of None \<Rightarrow> ret () | Some _ \<Rightarrow> release PtableLock)"

inductive sys_run :: "'e ksched_scheme \<Rightarrow> 'e ksched_scheme \<Rightarrow> bool" where
  start: "sys_run s s"
| round: "sys_run s t \<Longrightarrow> cproc (cpus t c) = None \<Longrightarrow>
    bnd scheduler_round enter (t\<lparr>me := c\<rparr>) = Ok () u \<Longrightarrow> sys_run s u"
| leave: "sys_run s t \<Longrightarrow> cproc (cpus t c) = Some i \<Longrightarrow>
    op \<in> {yield, tsleep, seq (acquire lk) (sleep ch lk)} \<Longrightarrow>
    op (t\<lparr>me := c\<rparr>) = Stop (Swtch u) \<Longrightarrow> bnd (scheduler_tail i) enter u = Ok () v \<Longrightarrow> sys_run s v"
| signal: "sys_run s t \<Longrightarrow> cproc (cpus t c) = Some i \<Longrightarrow>
    op \<in> {wakeup ch, twakeup n, bnd (kill n) (\<lambda>_. ret ())} \<Longrightarrow>
    op (t\<lparr>me := c\<rparr>) = Ok () u \<Longrightarrow> sys_run s u"

definition running_wf :: "'e ksched_scheme \<Rightarrow> bool" where
  "running_wf s \<longleftrightarrow>
     (\<forall>lk. idle lk s) \<and> (\<forall>c. ncli (cpus s c) = 0) \<and>
     (\<forall>c i. cproc (cpus s c) = Some i \<longrightarrow> i < length (ptable s) \<and> state (ptable s ! i) = RUNNING) \<and>
     (\<forall>c d i. cproc (cpus s c) = Some i \<longrightarrow> cproc (cpus s d) = Some i \<longrightarrow> c = d) \<and>
     (\<forall>i < length (ptable s). state (ptable s ! i) = RUNNING \<longrightarrow> (\<exists>c. cproc (cpus s c) = Some i))"

lemma running_wf_at:
  assumes "running_wf s"
  shows "idle lk (s\<lparr>me := c\<rparr>)" and "cli_wf (s\<lparr>me := c\<rparr>)" and "ncli (mycpu (s\<lparr>me := c\<rparr>)) = 0"
  using assms by (auto simp: running_wf_def idle_def cli_wf_def mycpu_def)

lemma wake_RUNNING [simp]: "state (wake ch p) = RUNNING \<longleftrightarrow> state p = RUNNING"
  by (simp add: wake_def)

lemma cpus_settled [simp]:
  "ncli (cpus (settled s) c) = ncli (cpus s c)" "cproc (cpus (settled s) c) = cproc (cpus s c)"
  by (simp_all add: settled_def core_defs settle_def)

lemma running_wf_settled [simp]: "running_wf (settled s) = running_wf s"
  by (simp add: running_wf_def)

lemma running_wf_me [simp]: "running_wf (s\<lparr>me := c\<rparr>) = running_wf s"
  by (simp add: running_wf_def idle_def)

lemma ptable_set_mycpu: "ptable (set_mycpu f s) = ptable s"
  by simp

lemma running_wf_iflag [simp]:
  "running_wf (set_mycpu (\<lambda>c. c\<lparr>iflag := b\<rparr>) s) = running_wf s"
proof -
  have "ncli (cpus (set_mycpu (\<lambda>c. c\<lparr>iflag := b\<rparr>) s) c) = ncli (cpus s c)"
    and "cproc (cpus (set_mycpu (\<lambda>c. c\<lparr>iflag := b\<rparr>) s) c) = cproc (cpus s c)" for c
    by simp_all
  note c = this
  show ?thesis unfolding running_wf_def c cpu_upd_simps(3) ptable_set_mycpu by (rule refl)
qed

lemma running_wf_same:
  assumes "running_wf s" and "length ps = length (ptable s)"
    and "\<And>i. i < length ps \<Longrightarrow> state (ps ! i) = RUNNING \<longleftrightarrow> state (ptable s ! i) = RUNNING"
  shows "running_wf (s\<lparr>ptable := ps\<rparr>)"
  using assms unfolding running_wf_def by (auto simp: idle_def)


lemma running_wfD:
  assumes "running_wf s" and "cproc (cpus s c) = Some i"
  shows "i < length (ptable s)" and "state (ptable s ! i) = RUNNING"
    and "cproc (cpus s d) = Some i \<Longrightarrow> d = c"
  using assms unfolding running_wf_def by blast+

text \<open>Signals change the table only by making sleeping processes runnable.\<close>

definition calm :: "proc list \<Rightarrow> proc list \<Rightarrow> bool" where
  "calm ps qs \<longleftrightarrow> length qs = length ps \<and>
     (\<forall>i < length ps. state (qs ! i) = RUNNING \<longleftrightarrow> state (ps ! i) = RUNNING)"

lemma calm_refl [simp]: "calm ps ps"
  by (simp add: calm_def)

lemma calm_wake [simp]: "calm ps qs \<Longrightarrow> calm ps (map (wake ch) qs)"
  by (simp add: calm_def)

lemma running_wf_calm: "running_wf s \<Longrightarrow> calm (ptable s) ps \<Longrightarrow> running_wf (s\<lparr>ptable := ps\<rparr>)"
  by (rule running_wf_same) (simp_all add: calm_def)

lemma wakeups_calm:
  "hoare (\<lambda>t. \<exists>ps. t = taken lk (s\<lparr>ptable := ps\<rparr>) \<and> calm (ptable s) ps)
     (forM is (\<lambda>i. bnd (gets (\<lambda>s. ptable s ! i)) (\<lambda>p. whenM (b p) (wakeup1 (ch i)))))
     (\<lambda>_ t. \<exists>ps. t = taken lk (s\<lparr>ptable := ps\<rparr>) \<and> calm (ptable s) ps) no_halt"
proof (rule hoare_forM)
  fix i
  show "hoare (\<lambda>t. \<exists>ps. t = taken lk (s\<lparr>ptable := ps\<rparr>) \<and> calm (ptable s) ps)
     (bnd (gets (\<lambda>s. ptable s ! i)) (\<lambda>p. whenM (b p) (wakeup1 (ch i))))
     (\<lambda>_ t. \<exists>ps. t = taken lk (s\<lparr>ptable := ps\<rparr>) \<and> calm (ptable s) ps) no_halt"
    by (force simp: hoare_def wakeup1_def kop_simps)
qed

lemma twakeup_eq:
  assumes "idle PtableLock s" and "cli_wf s"
  obtains ps where "twakeup n s = Ok () (settled (s\<lparr>ptable := ps\<rparr>))" and "calm (ptable s) ps"
proof -
  have "\<exists>ps. taken PtableLock s = taken PtableLock (s\<lparr>ptable := ps\<rparr>) \<and> calm (ptable s) ps"
    by (intro exI [of _ "ptable s"]) simp
  from hoare_total [OF wakeups_calm [of PtableLock s "[0..<NPROC]"
      "\<lambda>p. state p = SLEEPING \<and> pid p = n \<and> isthread p = 1" "\<lambda>i. Some (ChProc i)"] this]
  obtain ps where "forM [0..<NPROC] (\<lambda>i. bnd (gets (\<lambda>s. ptable s ! i)) (\<lambda>p.
        whenM (state p = SLEEPING \<and> pid p = n \<and> isthread p = 1) (wakeup1 (Some (ChProc i)))))
      (taken PtableLock s) = Ok () (taken PtableLock (s\<lparr>ptable := ps\<rparr>))"
      and "calm (ptable s) ps"
    by auto
  with assms that [of ps] show thesis by (simp add: twakeup_def)
qed

lemma signal_running:
  assumes "running_wf s" and "op \<in> {wakeup ch, twakeup n, bnd (kill n) (\<lambda>_. ret ())}"
    and "op (s\<lparr>me := c\<rparr>) = Ok () u"
  shows "running_wf u"
proof -
  note at = running_wf_at(1) [OF assms(1), of PtableLock c] running_wf_at(2) [OF assms(1), of c]
  have wf: "running_wf (s\<lparr>me := c\<rparr>)" using assms(1) by simp
  from assms(2) consider "op = wakeup ch" | "op = twakeup n" | "op = bnd (kill n) (\<lambda>_. ret ())"
    by blast
  then show ?thesis
  proof cases
    case 1
    with assms(3) running_wf_calm [OF wf] show ?thesis by (auto simp: wakeup_eq [OF at(1,2)])
  next
    case 2
    obtain ps where "twakeup n (s\<lparr>me := c\<rparr>) = Ok () (settled (s\<lparr>me := c, ptable := ps\<rparr>))"
      and "calm (ptable (s\<lparr>me := c\<rparr>)) ps"
      by (rule twakeup_eq [OF at(1,2)])
    with 2 assms(3) running_wf_calm [OF wf] show ?thesis by auto
  next
    case 3
    have "running_wf (upd_proc i (\<lambda>p. p\<lparr>killed := True,
        state := if state p = SLEEPING then RUNNABLE else state p\<rparr>) (s\<lparr>me := c\<rparr>))" for i
      unfolding upd_proc_def by (rule running_wf_calm [OF wf]) (auto simp: calm_def nth_update_conv)
    with 3 assms(3) wf show ?thesis
      by (auto simp: kill_eq [OF at(1,2)] bnd_apply split: option.splits)
  qed
qed

section \<open>The scheduler\<close>

lemma set_mycpu_taken:
  "(\<And>c. f (pushed c) = pushed (f c)) \<Longrightarrow> set_mycpu f (taken lk s) = taken lk (set_mycpu f s)"
  by (simp add: taken_def core_defs)

lemma switchuvm_eq:
  assumes "cproc (mycpu s) = Some i" and "pgdir (ptable s ! p) \<noteq> 0"
    and "0 < ncli (mycpu s)" and "\<not> iflag (mycpu s)"
  shows "switchuvm p s = Ok () (set_mycpu (\<lambda>c. c\<lparr>cr3 := v2p (pgdir (ptable s ! p)),
     esp0 := kstack (ptable s ! i) + KSTACKSIZE\<rparr>) s)"
proof -
  let ?f = "\<lambda>c. (pushed c)\<lparr>esp0 := kstack (ptable s ! i) + KSTACKSIZE,
      cr3 := v2p (pgdir (ptable s ! p))\<rparr>"
  have "popcli (set_mycpu ?f s) = Ok () (set_mycpu popped (set_mycpu ?f s))"
    using assms by (intro popcli_eq) simp_all
  moreover have "set_mycpu popped (set_mycpu ?f s) = set_mycpu (\<lambda>c. c\<lparr>cr3 := v2p (pgdir (ptable s ! p)),
     esp0 := kstack (ptable s ! i) + KSTACKSIZE\<rparr>) s"
    unfolding set_mycpu_comp using assms
    by (intro set_mycpu_cong cpu.equality) (simp_all add: popped_def pushed_def)
  ultimately show ?thesis using assms
    by (simp add: switchuvm_def pushcli_eq curproc_def lcr3_def kop_simps set_mycpu_comp)
qed


lemma next_runnable_Some:
  "next_runnable i ps = Some j \<Longrightarrow> i \<le> j \<and> j < length ps \<and> state (ps ! j) = RUNNABLE"
  by (auto simp: next_runnable_def dest!: find_index_SomeD)

definition on_cpu :: "nat \<Rightarrow> 'e ksched_scheme \<Rightarrow> 'e ksched_scheme" where
  "on_cpu j s = upd_proc j (\<lambda>p. p\<lparr>state := RUNNING\<rparr>) (set_mycpu (\<lambda>c. c\<lparr>cproc := Some j,
     cr3 := v2p (pgdir (ptable s ! j)), esp0 := kstack (ptable s ! j) + KSTACKSIZE\<rparr>) s)"

lemma idle_on_cpu [simp]: "idle lk (on_cpu j s) = idle lk s"
  by (simp add: on_cpu_def)

lemma scheduler_scan_eq:
  assumes "idle PtableLock s" and "cli_wf s"
  shows "scheduler_scan i (taken PtableLock s) =
    (case next_runnable i (ptable s) of
       None \<Rightarrow> Ok None (settled s)
     | Some j \<Rightarrow> if pgdir (ptable s ! j) = 0 then Stop (Panic ''switchuvm: no pgdir'')
                else Ok (Some j) (taken PtableLock (on_cpu j s)))"
proof (cases "next_runnable i (ptable s)")
  case None
  with assms show ?thesis by (simp add: scheduler_scan_def kop_simps)
next
  case (Some j)
  let ?t = "taken PtableLock (set_mycpu (\<lambda>c. c\<lparr>cproc := Some j\<rparr>) s)"
  have t: "set_mycpu (\<lambda>c. c\<lparr>cproc := Some j\<rparr>) (taken PtableLock s) = ?t"
    by (rule set_mycpu_taken) (simp add: pushed_def)
  show ?thesis
  proof (cases "pgdir (ptable s ! j) = 0")
    case True
    then have "switchuvm j ?t = Stop (Panic ''switchuvm: no pgdir'')"
      by (simp add: switchuvm_def pushcli_eq curproc_def kop_simps)
    with Some True show ?thesis by (simp add: scheduler_scan_def t kop_simps)
  next
    case False
    then have "switchuvm j ?t = Ok () (set_mycpu (\<lambda>c. c\<lparr>cr3 := v2p (pgdir (ptable ?t ! j)),
       esp0 := kstack (ptable ?t ! j) + KSTACKSIZE\<rparr>) ?t)"
      using assms(2) by (intro switchuvm_eq) (simp_all add: cli_wf_def)
    moreover have "set_mycpu (\<lambda>c. c\<lparr>cr3 := v2p (pgdir (ptable ?t ! j)),
       esp0 := kstack (ptable ?t ! j) + KSTACKSIZE\<rparr>) ?t = taken PtableLock
       (set_mycpu (\<lambda>c. c\<lparr>cr3 := v2p (pgdir (ptable ?t ! j)),
       esp0 := kstack (ptable ?t ! j) + KSTACKSIZE\<rparr>) (set_mycpu (\<lambda>c. c\<lparr>cproc := Some j\<rparr>) s))"
      by (rule set_mycpu_taken) (simp add: pushed_def)
    ultimately show ?thesis using Some False
      by (simp add: scheduler_scan_def t kop_simps on_cpu_def set_mycpu_comp)
  qed
qed

lemma cli_wf_on_cpu [simp]: "cli_wf (on_cpu j s) = cli_wf s"
  by (simp add: on_cpu_def cli_wf_def)

lemma scan_enter:
  assumes "idle PtableLock s" and "cli_wf s"
    and "bnd (scheduler_scan i) enter (taken PtableLock s) = Ok () u"
  shows "u = settled s \<or>
    (\<exists>j. next_runnable i (ptable s) = Some j \<and> u = settled (on_cpu j s))"
  using assms(3) by (auto simp: bnd_apply scheduler_scan_eq [OF assms(1,2)] enter_def assms(1,2)
      split: option.splits if_splits)

lemma on_cpu_running:
  assumes "running_wf s" and "cproc (mycpu s) = None"
    and "j < length (ptable s)" and "state (ptable s ! j) \<noteq> RUNNING"
  shows "running_wf (on_cpu j s)"
  unfolding running_wf_def
proof (intro conjI allI impI)
  note d = running_wfD [OF assms(1)]
  fix lk c
  show "idle lk (on_cpu j s)" and "ncli (cpus (on_cpu j s) c) = 0"
    using assms(1) by (simp_all add: running_wf_def on_cpu_def)
next
  note d = running_wfD [OF assms(1)]
  fix c i
  assume "cproc (cpus (on_cpu j s) c) = Some i"
  then show "i < length (ptable (on_cpu j s))" and "state (ptable (on_cpu j s) ! i) = RUNNING"
    using assms(3) d(1,2) [of c] by (auto simp: on_cpu_def nth_list_update split: if_splits)
next
  note d = running_wfD [OF assms(1)]
  fix c d i
  assume "cproc (cpus (on_cpu j s) c) = Some i" "cproc (cpus (on_cpu j s) d) = Some i"
  then show "c = d"
    using assms(4) d(2) d(3) [of c i d] by (auto simp: on_cpu_def split: if_splits)
next
  fix i
  assume "i < length (ptable (on_cpu j s))" and r: "state (ptable (on_cpu j s) ! i) = RUNNING"
  then have i: "i < length (ptable s)" by (simp add: on_cpu_def)
  show "\<exists>c. cproc (cpus (on_cpu j s) c) = Some i"
  proof (cases "i = j")
    case True
    then show ?thesis by (intro exI [of _ "me s"]) (simp add: on_cpu_def)
  next
    case False
    with r i have "state (ptable s ! i) = RUNNING" by (simp add: on_cpu_def)
    with assms(1) i obtain c where "cproc (cpus s c) = Some i"
      unfolding running_wf_def by blast
    moreover with assms(2) have "c \<noteq> me s" by (auto simp: mycpu_def)
    ultimately show ?thesis by (intro exI [of _ c]) (simp add: on_cpu_def)
  qed
qed


text \<open>The state in which the scheduler continues after process \<open>i\<close> has left processor \<open>me\<close>.\<close>

definition off_cpu :: "nat \<Rightarrow> (proc \<Rightarrow> proc) \<Rightarrow> 'e ksched_scheme \<Rightarrow> 'e ksched_scheme" where
  "off_cpu i f s = set_mycpu (\<lambda>c. c\<lparr>cr3 := v2p (kpgdir s), cproc := None\<rparr>) (upd_proc i f s)"

lemma off_cpu_simps [simp]:
  "idle lk (off_cpu i f s) = idle lk s" "cli_wf (off_cpu i f s) = cli_wf s"
  "cproc (mycpu (off_cpu i f s)) = None"
  by (simp_all add: off_cpu_def cli_wf_def)

lemma kpgdir_upd_proc [simp]: "kpgdir (upd_proc i f s) = kpgdir s"
  by (simp add: upd_proc_def)

lemma scheduler_tail_eq:
  "scheduler_tail i (taken PtableLock (upd_proc i f s)) =
     scheduler_scan (Suc i) (taken PtableLock (off_cpu i f s))"
proof -
  have "set_mycpu (\<lambda>c. c\<lparr>cr3 := v2p (kpgdir s), cproc := None\<rparr>) (taken PtableLock (upd_proc i f s)) =
      taken PtableLock (off_cpu i f s)"
    unfolding off_cpu_def by (rule set_mycpu_taken) (simp add: pushed_def)
  moreover have "(\<lambda>c :: cpu. c\<lparr>cr3 := v2p (kpgdir s)\<rparr>\<lparr>cproc := None\<rparr>) =
      (\<lambda>c. c\<lparr>cr3 := v2p (kpgdir s), cproc := None\<rparr>)" by simp
  ultimately show ?thesis
    by (simp add: scheduler_tail_def switchkvm_def lcr3_def kop_simps set_mycpu_comp)
qed

lemma off_cpu_running:
  assumes "running_wf s" and "cproc (mycpu s) = Some i" and "\<And>p. state (f p) \<noteq> RUNNING"
  shows "running_wf (off_cpu i f s)"
  unfolding running_wf_def
proof (intro conjI allI impI)
  fix lk c
  show "idle lk (off_cpu i f s)" and "ncli (cpus (off_cpu i f s) c) = 0"
    using assms(1) by (simp_all add: running_wf_def off_cpu_def)
next
  note me = assms(2) [unfolded mycpu_def]
  note d = running_wfD [OF assms(1)]
  fix c j
  assume "cproc (cpus (off_cpu i f s) c) = Some j"
  then have c: "c \<noteq> me s" "cproc (cpus s c) = Some j" by (simp_all add: off_cpu_def split: if_splits)
  with d(3) [OF me, of c] have "j \<noteq> i" by auto
  with c d(1,2) [of c j] show "j < length (ptable (off_cpu i f s))"
    and "state (ptable (off_cpu i f s) ! j) = RUNNING" by (simp_all add: off_cpu_def)
next
  note d = running_wfD [OF assms(1)]
  fix c d i'
  assume "cproc (cpus (off_cpu i f s) c) = Some i'" "cproc (cpus (off_cpu i f s) d) = Some i'"
  then show "c = d" using d(3) [of c i' d] by (auto simp: off_cpu_def split: if_splits)
next
  note me = assms(2) [unfolded mycpu_def]
  fix j
  assume j: "j < length (ptable (off_cpu i f s))" and r: "state (ptable (off_cpu i f s) ! j) = RUNNING"
  from j r assms(3) have "j \<noteq> i" by (auto simp: off_cpu_def)
  with j r have "j < length (ptable s)" "state (ptable s ! j) = RUNNING"
    by (simp_all add: off_cpu_def)
  with assms(1) obtain c where c: "cproc (cpus s c) = Some j" unfolding running_wf_def by blast
  with \<open>j \<noteq> i\<close> me have "c \<noteq> me s" by auto
  with c show "\<exists>c. cproc (cpus (off_cpu i f s) c) = Some j"
    by (intro exI [of _ c]) (simp add: off_cpu_def)
qed

lemma given_taken_swap:
  assumes "idle lk s" and "cli_wf s" and "lk \<noteq> PtableLock"
  shows "given lk (taken PtableLock (taken lk s)) = taken PtableLock s"
proof -
  have "popped (pushed (pushed (mycpu s))) = pushed (mycpu s)"
    using assms(2) unfolding cli_wf_def by (intro cpu.equality) (auto simp: popped_def pushed_def)
  moreover have "(locks s lk)\<lparr>locked := 0, lkcpu := None\<rparr> = locks s lk"
    using assms(1) unfolding idle_def by (intro spinlock.equality) auto
  ultimately show ?thesis using assms(3)
    by (simp add: given_def taken_def core_defs fun_upd_twist [of PtableLock lk])
qed

lemma leave_eq:
  assumes "running_wf s" and "cproc (mycpu s) = Some i"
    and "op \<in> {yield, tsleep, seq (acquire lk) (sleep ch lk)}" and "op s = Stop (Swtch u)"
  shows "\<exists>f. (\<forall>p. state (f p) \<noteq> RUNNING) \<and> u = taken PtableLock (upd_proc i f s)"
proof -
  have at: "\<And>lk. idle lk s" "cli_wf s" "ncli (mycpu s) = 0"
    using assms(1) by (auto simp: running_wf_def cli_wf_def mycpu_def)
  have i: "i < length (ptable s)"
    using running_wfD(1) [OF assms(1)] assms(2) by (simp add: mycpu_def)
  have slp: "sleep ch' PtableLock (taken PtableLock s) =
      Stop (Swtch (asleep i ch' (taken PtableLock s)))" for ch'
    using at assms(2) i by (intro sleep_ptable_eq) simp_all
  from assms(3) consider "op = yield" | "op = tsleep" | "op = seq (acquire lk) (sleep ch lk)"
    by blast
  then show ?thesis
  proof cases
    case 1
    with assms(4) yield_eq [OF at(1) at(2,3) assms(2) i] show ?thesis
      by (intro exI [of _ "\<lambda>p. p\<lparr>state := RUNNABLE\<rparr>"]) simp
  next
    case 2
    with assms(2,4) slp at(1) show ?thesis
      by (intro exI [of _ "\<lambda>p. p\<lparr>chan := Some (ChProc i), state := SLEEPING\<rparr>"])
        (simp add: tsleep_def curproc_def kop_simps asleep_def)
  next
    case 3
    have "u = asleep i ch (taken PtableLock s)"
    proof (cases "lk = PtableLock")
      case True
      with 3 assms(4) slp at(1) show ?thesis by simp
    next
      case False
      have "sleep ch lk (taken lk s) = Stop (Swtch (asleep i ch (given lk (taken PtableLock (taken lk s)))))"
        using False at assms(2) i by (intro sleep_eq) simp_all
      with 3 assms(4) at(1) show ?thesis by (simp add: given_taken_swap [OF at(1,2) False])
    qed
    then show ?thesis
      by (intro exI [of _ "\<lambda>p. p\<lparr>chan := Some ch, state := SLEEPING\<rparr>"]) (simp add: asleep_def)
  qed
qed

lemma scan_running:
  assumes "running_wf s" and "cproc (mycpu s) = None"
    and "bnd (scheduler_scan i) enter (taken PtableLock s) = Ok () u"
  shows "running_wf u"
proof -
  have "idle PtableLock s" "cli_wf s"
    using assms(1) by (auto simp: running_wf_def cli_wf_def mycpu_def)
  from scan_enter [OF this assms(3)] assms(1) on_cpu_running [OF assms(1,2)] show ?thesis
    by (auto dest!: next_runnable_Some)
qed



section \<open>A concrete machine\<close>

definition unused_proc :: proc where
  "unused_proc = \<lparr>sz = 0, pgdir = 0, kstack = 0, state = UNUSED, pid = 0, parent = None, tf = 0,
     pcontext = 0, chan = None, killed = False, ofile = replicate NOFILE None, cwd = None,
     pname = replicate 16 0, pstack = 0, isthread = 0\<rparr>"

definition ex_proc :: proc where
  "ex_proc = unused_proc\<lparr>pgdir := 0x80300000, kstack := 0x80301000, state := RUNNABLE, pid := 1\<rparr>"

definition ex_sched :: ksched where
  "ex_sched = \<lparr>me = 0, cpus = cpus quiet_core, locks = locks quiet_core,
     mem = (\<lambda>_. 0), use_lock = True, freelist = 0x80400000, kend = 0x80200000,
     kpgdir = 0x80302000, kdata = 0x80108000,
     ptable = ex_proc # replicate (NPROC - 1) unused_proc, initproc = Some 0, nextpid = 2\<rparr>"

lemma ex_sched_simps [simp]:
  "idle lk ex_sched" "cli_wf ex_sched" "cproc (cpus ex_sched c) = None" "ncli (cpus ex_sched c) = 0"
  "ptable ex_sched = ex_proc # replicate 63 unused_proc" "me ex_sched = 0"
  by (simp_all add: ex_sched_def idle_def cli_wf_def mycpu_def quiet_core_def NPROC_def)

lemma ex_proc_simps [simp]:
  "state unused_proc = UNUSED" "state ex_proc = RUNNABLE" "pgdir ex_proc \<noteq> 0"
  "pid ex_proc = 1" "pid unused_proc = 0"
  by (simp_all add: ex_proc_def unused_proc_def)

lemma ex_sched_running: "running_wf ex_sched"
proof -
  have "state ((ex_proc # replicate 63 unused_proc) ! i) \<noteq> RUNNING" if "i < 64" for i
    using that by (cases i) simp_all
  then show ?thesis by (simp add: running_wf_def)
qed

lemma ex_sched_dispatch:
  "bnd scheduler_round enter (ex_sched\<lparr>me := 0\<rparr>) =
     Ok () (settled (on_cpu 0 (set_mycpu (\<lambda>c. c\<lparr>iflag := True\<rparr>) ex_sched)))"
proof -
  let ?t = "set_mycpu (\<lambda>c. c\<lparr>iflag := True\<rparr>) ex_sched"
  have w: "cli_wf ?t" using ex_sched_simps(4) [of 0] by (simp add: cli_wf_def mycpu_def)
  have m: "ex_sched\<lparr>me := 0\<rparr> = ex_sched" by (simp add: ex_sched_def)
  have "scheduler_scan 0 (taken PtableLock ?t) = Ok (Some 0) (taken PtableLock (on_cpu 0 ?t))"
    by (subst scheduler_scan_eq) (simp_all add: w next_runnable_def)
  then show ?thesis
    by (simp add: m scheduler_round_def sti_def kop_simps enter_def w)
qed






end
