(* ===== verification/Bio.thy ===== *)
theory Bio
  imports Sched
begin

unbundle bit_operations_syntax

text \<open>
  The buffer cache (bio.c, buf.h) on the memory disk driver (memide.c).

  Buffers are named by their index in \<open>bcache.buf\<close>; the index \<open>NBUF\<close> names \<open>bcache.head\<close>.  The
  buffers form a doubly linked ring through \<open>bprev\<close> and \<open>bnext\<close> as in the source.  \<open>memdisk\<close> is
  the disk image in blocks of 512 bytes.  \<open>dwrites\<close> is not a variable of the program: it records
  the blocks the driver has written, in order, so that a crash can be described as
  a disk that has seen only a prefix of them.
\<close>

section \<open>State\<close>

definition B_BUSY :: uint where "B_BUSY = 1"
definition B_VALID :: uint where "B_VALID = 2"
definition B_DIRTY :: uint where "B_DIRTY = 4"

lemmas bflag_defs = B_BUSY_def B_VALID_def B_DIRTY_def

definition BSIZE :: nat where "BSIZE = 512"

record buf =
  flags :: uint
  dev :: uint
  sector :: uint
  bprev :: nat
  bnext :: nat
  qnext :: "nat option"
  data :: "uchar list"

record kbio = ksched +
  bufs :: "nat \<Rightarrow> buf"
  memdisk :: "uint \<Rightarrow> uchar list"
  disksize :: uint
  dwrites :: "(uint \<times> uchar list) list"

definition bhead :: nat where "bhead = NBUF"

definition upd_buf :: "nat \<Rightarrow> (buf \<Rightarrow> buf) \<Rightarrow> 'e kbio_scheme \<Rightarrow> 'e kbio_scheme" where
  "upd_buf b f s = s\<lparr>bufs := (bufs s)(b := f (bufs s b))\<rparr>"

section \<open>memide.c\<close>

definition ideinit :: "(uint \<Rightarrow> uchar list) \<Rightarrow> uint \<Rightarrow> ('e kbio_scheme, unit) kop" where
  "ideinit img img_size = modify (\<lambda>s. s\<lparr>memdisk := img, disksize := img_size div 512\<rparr>)"

definition iderw :: "nat \<Rightarrow> ('e kbio_scheme, unit) kop" where
  "iderw b =
     bnd (gets (\<lambda>s. bufs s b)) (\<lambda>bp.
     bnd (gets disksize) (\<lambda>dsz.
     if flags bp AND B_BUSY = 0 then panic ''iderw: buf not busy''
     else if flags bp AND (B_VALID OR B_DIRTY) = B_VALID then panic ''iderw: nothing to do''
     else if dev bp \<noteq> 1 then panic ''iderw: request not for disk 1''
     else if sector bp \<ge> dsz then panic ''iderw: sector out of range''
     else
       seq (if flags bp AND B_DIRTY \<noteq> 0 then
              seq (modify (upd_buf b (\<lambda>bp. bp\<lparr>flags := flags bp AND NOT B_DIRTY\<rparr>)))
                  (modify (\<lambda>s. s\<lparr>memdisk := (memdisk s)(sector bp := data bp),
                                 dwrites := dwrites s @ [(sector bp, data bp)]\<rparr>))
            else
              modify (\<lambda>s. upd_buf b (\<lambda>bp. bp\<lparr>data := memdisk s (sector bp)\<rparr>) s))
         (modify (upd_buf b (\<lambda>bp. bp\<lparr>flags := flags bp OR B_VALID\<rparr>)))))"

section \<open>bio.c\<close>

definition binit_link :: "nat \<Rightarrow> ('e kbio_scheme, unit) kop" where
  "binit_link b =
     bnd (gets (\<lambda>s. bnext (bufs s bhead))) (\<lambda>n.
     seq (modify (upd_buf b (\<lambda>bp. bp\<lparr>bnext := n\<rparr>)))
     (seq (modify (upd_buf b (\<lambda>bp. bp\<lparr>bprev := bhead\<rparr>)))
     (seq (modify (upd_buf b (\<lambda>bp. bp\<lparr>dev := - 1\<rparr>)))
     (seq (modify (\<lambda>s. upd_buf (bnext (bufs s bhead)) (\<lambda>bp. bp\<lparr>bprev := b\<rparr>) s))
          (modify (upd_buf bhead (\<lambda>bp. bp\<lparr>bnext := b\<rparr>)))))))"

definition binit :: "('e kbio_scheme, unit) kop" where
  "binit =
     seq (initlock BcacheLock ''bcache'')
     (seq (modify (upd_buf bhead (\<lambda>bp. bp\<lparr>bprev := bhead\<rparr>)))
     (seq (modify (upd_buf bhead (\<lambda>bp. bp\<lparr>bnext := bhead\<rparr>)))
          (forM [0..<NBUF] binit_link)))"

text \<open>
  A loop \<open>for(b = head.next; b != &head; b = b->next)\<close> that stops at the first \<open>b\<close> with \<open>p\<close>:
  \<open>Some (Some b)\<close> when it stops there, \<open>Some None\<close> when it reaches the head, \<open>None\<close> when it has
  not ended after \<open>n\<close> steps.  A ring of \<open>NBUF\<close> buffers needs at most \<open>NBUF + 1\<close> steps.
\<close>

fun ring_find :: "(nat \<Rightarrow> nat) \<Rightarrow> (nat \<Rightarrow> bool) \<Rightarrow> nat \<Rightarrow> nat \<Rightarrow> nat option option" where
  "ring_find nx p 0 b = None"
| "ring_find nx p (Suc n) b =
     (if b = bhead then Some None
      else if p b then Some (Some b)
      else ring_find nx p n (nx b))"

definition bget_cached :: "uint \<Rightarrow> uint \<Rightarrow> 'e kbio_scheme \<Rightarrow> nat option option" where
  "bget_cached d n s = ring_find (\<lambda>b. bnext (bufs s b))
     (\<lambda>b. dev (bufs s b) = d \<and> sector (bufs s b) = n) (Suc NBUF) (bnext (bufs s bhead))"

definition bget_victim :: "'e kbio_scheme \<Rightarrow> nat option option" where
  "bget_victim s = ring_find (\<lambda>b. bprev (bufs s b))
     (\<lambda>b. flags (bufs s b) AND B_BUSY = 0 \<and> flags (bufs s b) AND B_DIRTY = 0)
     (Suc NBUF) (bprev (bufs s bhead))"

text \<open>
  \<open>bget_loop\<close> is the code from the label \<open>loop\<close> on.  A busy buffer makes the process sleep;
  it continues with \<open>bget_resume\<close>.
\<close>

definition bget_loop :: "uint \<Rightarrow> uint \<Rightarrow> ('e kbio_scheme, nat) kop" where
  "bget_loop d n =
     bnd (gets (bget_cached d n)) (\<lambda>found.
     case found of
       None \<Rightarrow> spin
     | Some (Some b) \<Rightarrow>
         bnd (gets (\<lambda>s. flags (bufs s b))) (\<lambda>fl.
         if fl AND B_BUSY = 0 then
           seq (modify (upd_buf b (\<lambda>bp. bp\<lparr>flags := flags bp OR B_BUSY\<rparr>)))
           (seq (release BcacheLock) (ret b))
         else seq (sleep (ChBuf b) BcacheLock) spin)
     | Some None \<Rightarrow>
         bnd (gets bget_victim) (\<lambda>victim.
         case victim of
           None \<Rightarrow> spin
         | Some (Some b) \<Rightarrow>
             seq (modify (upd_buf b (\<lambda>bp. bp\<lparr>dev := d, sector := n, flags := B_BUSY\<rparr>)))
             (seq (release BcacheLock) (ret b))
         | Some None \<Rightarrow> panic ''bget: no buffers''))"

definition bget_resume :: "uint \<Rightarrow> uint \<Rightarrow> ('e kbio_scheme, nat) kop" where
  "bget_resume d n = seq (sleep_tail BcacheLock) (bget_loop d n)"

definition bget :: "uint \<Rightarrow> uint \<Rightarrow> ('e kbio_scheme, nat) kop" where
  "bget d n = seq (acquire BcacheLock) (bget_loop d n)"

definition bread :: "uint \<Rightarrow> uint \<Rightarrow> ('e kbio_scheme, nat) kop" where
  "bread d n =
     bnd (bget d n) (\<lambda>b.
     bnd (gets (\<lambda>s. flags (bufs s b))) (\<lambda>fl.
     seq (whenM (fl AND B_VALID = 0) (iderw b))
         (ret b)))"

definition bwrite :: "nat \<Rightarrow> ('e kbio_scheme, unit) kop" where
  "bwrite b =
     bnd (gets (\<lambda>s. flags (bufs s b))) (\<lambda>fl.
     if fl AND B_BUSY = 0 then panic ''bwrite''
     else
       seq (modify (upd_buf b (\<lambda>bp. bp\<lparr>flags := flags bp OR B_DIRTY\<rparr>)))
           (iderw b))"

definition bunlink :: "nat \<Rightarrow> 'e kbio_scheme \<Rightarrow> 'e kbio_scheme" where
  "bunlink b s =
     (let s1 = upd_buf (bnext (bufs s b)) (\<lambda>bp. bp\<lparr>bprev := bprev (bufs s b)\<rparr>) s
      in upd_buf (bprev (bufs s1 b)) (\<lambda>bp. bp\<lparr>bnext := bnext (bufs s1 b)\<rparr>) s1)"

definition bpush :: "nat \<Rightarrow> 'e kbio_scheme \<Rightarrow> 'e kbio_scheme" where
  "bpush b s =
     (let s1 = upd_buf b (\<lambda>bp. bp\<lparr>bnext := bnext (bufs s bhead)\<rparr>) s;
          s2 = upd_buf b (\<lambda>bp. bp\<lparr>bprev := bhead\<rparr>) s1;
          s3 = upd_buf (bnext (bufs s2 bhead)) (\<lambda>bp. bp\<lparr>bprev := b\<rparr>) s2
      in upd_buf bhead (\<lambda>bp. bp\<lparr>bnext := b\<rparr>) s3)"

definition brelse :: "nat \<Rightarrow> ('e kbio_scheme, unit) kop" where
  "brelse b =
     bnd (gets (\<lambda>s. flags (bufs s b))) (\<lambda>fl.
     if fl AND B_BUSY = 0 then panic ''brelse''
     else
       seq (acquire BcacheLock)
       (seq (modify (bunlink b))
       (seq (modify (bpush b))
       (seq (modify (upd_buf b (\<lambda>bp. bp\<lparr>flags := flags bp AND NOT B_BUSY\<rparr>)))
       (seq (wakeup (ChBuf b))
            (release BcacheLock))))))"

section \<open>The layer's simplification rules\<close>

lemma kbio_lock_simps [simp]:
  "bufs (taken lk s) = bufs s" "memdisk (taken lk s) = memdisk s"
  "disksize (taken lk s) = disksize s" "dwrites (taken lk s) = dwrites s"
  "bufs (settled s) = bufs s" "memdisk (settled s) = memdisk s"
  "disksize (settled s) = disksize s" "dwrites (settled s) = dwrites s"
  by (simp_all add: taken_def settled_def core_defs)

lemma kbio_upd_simps [simp]:
  "bufs_update f (taken lk s) = taken lk (bufs_update f s)"
  "bufs_update f (settled s) = settled (bufs_update f s)"
  "memdisk_update g (taken lk s) = taken lk (memdisk_update g s)"
  "memdisk_update g (settled s) = settled (memdisk_update g s)"
  "dwrites_update h (taken lk s) = taken lk (dwrites_update h s)"
  "dwrites_update h (settled s) = settled (dwrites_update h s)"
  "idle lk (bufs_update f s) = idle lk s" "cli_wf (bufs_update f s) = cli_wf s"
  "mycpu (bufs_update f s) = mycpu s" "holding lk (bufs_update f s) = holding lk s"
  "idle lk (memdisk_update g s) = idle lk s" "cli_wf (memdisk_update g s) = cli_wf s"
  "mycpu (memdisk_update g s) = mycpu s" "holding lk (memdisk_update g s) = holding lk s"
  "idle lk (dwrites_update h s) = idle lk s" "cli_wf (dwrites_update h s) = cli_wf s"
  "mycpu (dwrites_update h s) = mycpu s" "holding lk (dwrites_update h s) = holding lk s"
  by (simp_all add: taken_def settled_def core_defs idle_def cli_wf_def holding_def)

lemma upd_buf_simps [simp]:
  "upd_buf b f (taken lk s) = taken lk (upd_buf b f s)"
  "upd_buf b f (settled s) = settled (upd_buf b f s)"
  "idle lk (upd_buf b f s) = idle lk s" "cli_wf (upd_buf b f s) = cli_wf s"
  "mycpu (upd_buf b f s) = mycpu s" "holding lk (upd_buf b f s) = holding lk s"
  "bufs (upd_buf b f s) = (bufs s)(b := f (bufs s b))"
  "memdisk (upd_buf b f s) = memdisk s" "disksize (upd_buf b f s) = disksize s"
  "dwrites (upd_buf b f s) = dwrites s" "ptable (upd_buf b f s) = ptable s" "me (upd_buf b f s) = me s"
  by (simp_all add: upd_buf_def)

lemma bufs_ptable [simp]: "bufs (ptable_update f s) = bufs s"
  by simp

section \<open>The ring of buffers as a list\<close>

text \<open>
  \<open>orbit nx xs\<close>: following \<open>nx\<close> from the head visits the buffers \<open>xs\<close> in order and returns to
  the head.  \<open>ring s xs\<close>: the list from the most to the least recently used buffer.
\<close>

definition orbit :: "(nat \<Rightarrow> nat) \<Rightarrow> nat list \<Rightarrow> bool" where
  "orbit nx xs \<longleftrightarrow> map nx (bhead # xs) = xs @ [bhead]"

definition nx :: "'e kbio_scheme \<Rightarrow> nat \<Rightarrow> nat" where
  "nx s = (\<lambda>b. bnext (bufs s b))"

definition pv :: "'e kbio_scheme \<Rightarrow> nat \<Rightarrow> nat" where
  "pv s = (\<lambda>b. bprev (bufs s b))"

definition ring :: "'e kbio_scheme \<Rightarrow> nat list \<Rightarrow> bool" where
  "ring s xs \<longleftrightarrow> distinct (bhead # xs) \<and> set xs = {0..<NBUF} \<and> orbit (nx s) xs \<and> orbit (pv s) (rev xs)"

lemma orbit_first: "orbit f xs \<Longrightarrow> f bhead = hd (xs @ [bhead])"
  unfolding orbit_def by (metis list.sel(1) list.simps(9))

lemma cons_snoc: obtains us p where "a # ys = us @ [p]" and "last (a # ys) = p"
  by (metis append_butlast_last_id list.distinct(1))

lemma orbit_split:
  assumes "orbit f (ys @ b # zs)" and "bhead # ys = us @ [p]"
  shows "f p = b" and "map f us = ys" and "map f (b # zs) = zs @ [bhead]"
    and "f b = hd (zs @ [bhead])"
proof -
  have len: "length us = length ys" using arg_cong [OF assms(2), of length] by simp
  have "map f ((bhead # ys) @ b # zs) = ys @ b # zs @ [bhead]"
    using assms(1) by (simp add: orbit_def)
  then have e: "map f us @ f p # map f (b # zs) = ys @ b # zs @ [bhead]"
    unfolding assms(2) by simp
  with len show "map f us = ys" by (simp add: append_eq_append_conv)
  with e show "f p = b" and *: "map f (b # zs) = zs @ [bhead]" by simp_all
  from * show "f b = hd (zs @ [bhead])" by (metis list.sel(1) list.simps(9))
qed

lemma orbit_remove:
  assumes "orbit f (ys @ b # zs)" and "distinct (bhead # ys @ b # zs)"
  shows "orbit (f(last (bhead # ys) := f b)) (ys @ zs)"
proof -
  obtain us p where up: "bhead # ys = us @ [p]" and l: "last (bhead # ys) = p" by (rule cons_snoc)
  have "distinct (us @ p # b # zs)" using assms(2) up by (metis append.assoc append_Cons append_Nil)
  then have "map (f(p := f b)) zs = map f zs" "map (f(p := f b)) us = map f us"
    by simp_all
  note m = this
  have e: "bhead # ys @ zs = us @ p # zs" using up by (metis append.assoc append_Cons append_Nil)
  show ?thesis
    unfolding orbit_def l e map_append list.map(2) m fun_upd_same
    using orbit_split [OF assms(1) up] by simp
qed

lemma orbit_push_front:
  assumes "orbit f xs" and "b \<notin> set (bhead # xs)" and "bhead \<notin> set xs"
  shows "orbit (f(b := f bhead, bhead := b)) (b # xs)"
proof -
  have "map (f(b := f bhead, bhead := b)) xs = map f xs"
    using assms(2,3) by (auto intro!: map_cong)
  with assms show ?thesis by (simp add: orbit_def)
qed

lemma orbit_push_back:
  assumes "orbit f xs" and "b \<notin> set (bhead # xs)" and "distinct (bhead # xs)"
  shows "orbit (f(b := bhead, last (bhead # xs) := b)) (xs @ [b])"
proof -
  obtain us p where up: "bhead # xs = us @ [p]" and l: "last (bhead # xs) = p" by (rule cons_snoc)
  have d: "distinct (us @ [p])" and b: "b \<notin> set (us @ [p])" using assms(2,3) unfolding up by simp_all
  have "map f (us @ [p]) = xs @ [bhead]" using assms(1) unfolding up [symmetric] orbit_def by simp
  then have m: "map f us = xs" by simp
  have "map (f(b := bhead, p := b)) us = map f us" using d b by simp
  note m' = this
  have e: "bhead # xs @ [b] = us @ [p, b]" using up by (metis append.assoc append_Cons append_Nil)
  show ?thesis unfolding orbit_def l e map_append list.map m' using m b by simp
qed

lemma ring_find_orbit:
  assumes "map f xs = tl xs @ [bhead]" and "bhead \<notin> set xs" and "length xs < n"
  shows "ring_find f p n (hd (xs @ [bhead])) = Some (find p xs)"
  using assms
proof (induction xs arbitrary: n)
  case Nil
  then show ?case by (cases n) simp_all
next
  case (Cons x xs)
  then obtain m where m: "n = Suc m" "length xs < m" by (cases n) auto
  have "f x = hd (xs @ [bhead])" using Cons.prems(1) by (cases xs) auto
  moreover have "map f xs = tl xs @ [bhead]" if "xs \<noteq> []" using Cons.prems(1) that by (cases xs) auto
  moreover have "ring_find f p m bhead = Some None" using m by (cases m) simp_all
  ultimately show ?case using Cons m by (cases "xs = []") auto
qed

lemma ring_bget:
  assumes "ring s xs"
  shows "bget_cached d n s = Some (find (\<lambda>b. dev (bufs s b) = d \<and> sector (bufs s b) = n) xs)"
    and "bget_victim s = Some (find (\<lambda>b. flags (bufs s b) AND B_BUSY = 0 \<and>
           flags (bufs s b) AND B_DIRTY = 0) (rev xs))"
proof -
  from assms have d: "bhead \<notin> set xs" "distinct xs" and st: "set xs = {0..<NBUF}"
    and on: "orbit (nx s) xs" and op: "orbit (pv s) (rev xs)"
    unfolding ring_def distinct.simps(2) by blast+
  have len: "length xs = NBUF" using d(2) st distinct_card [of xs] by simp
  then obtain a ys where xs: "xs = a # ys" by (cases xs) (auto simp: NBUF_def)
  obtain c zs where rx: "rev xs = c # zs" using xs by (cases "rev xs") auto
  have "map (nx s) xs = tl xs @ [bhead]" using on by (simp add: xs orbit_def)
  from ring_find_orbit [OF this d(1)] len
  have n: "ring_find (nx s) p (Suc NBUF) (hd (xs @ [bhead])) = Some (find p xs)" for p
    by (simp del: ring_find.simps)
  have "map (pv s) (rev xs) = tl (rev xs) @ [bhead]" using op by (simp add: rx orbit_def)
  from ring_find_orbit [OF this] d(1) len
  have p: "ring_find (pv s) p (Suc NBUF) (hd (rev xs @ [bhead])) = Some (find p (rev xs))" for p
    by (simp del: ring_find.simps)
  show "bget_cached d n s = Some (find (\<lambda>b. dev (bufs s b) = d \<and> sector (bufs s b) = n) xs)"
    using n orbit_first [OF on] unfolding bget_cached_def nx_def by (simp del: ring_find.simps)
  show "bget_victim s = Some (find (\<lambda>b. flags (bufs s b) AND B_BUSY = 0 \<and>
           flags (bufs s b) AND B_DIRTY = 0) (rev xs))"
    using p orbit_first [OF op] unfolding bget_victim_def pv_def by (simp del: ring_find.simps)
qed

section \<open>Buffer flags\<close>

definition busy :: "buf \<Rightarrow> bool" where "busy b \<longleftrightarrow> flags b AND B_BUSY \<noteq> 0"
definition valid :: "buf \<Rightarrow> bool" where "valid b \<longleftrightarrow> flags b AND B_VALID \<noteq> 0"
definition dirty :: "buf \<Rightarrow> bool" where "dirty b \<longleftrightarrow> flags b AND B_DIRTY \<noteq> 0"

lemma flag_consts:
  "bit B_BUSY n \<longleftrightarrow> n = 0" "bit B_VALID n \<longleftrightarrow> n = 1" "bit B_DIRTY n \<longleftrightarrow> n = 2"
proof -
  have *: "bit (2 ^ k :: uint) n \<longleftrightarrow> n = k" if "k < 32" for k
    using that by (auto simp: bit_exp_iff)
  show "bit B_BUSY n \<longleftrightarrow> n = 0" using * [of 0] by (simp add: B_BUSY_def)
  show "bit B_VALID n \<longleftrightarrow> n = 1" using * [of 1] by (simp add: B_VALID_def)
  show "bit B_DIRTY n \<longleftrightarrow> n = 2" using * [of 2] by (simp add: B_DIRTY_def)
qed

lemma and_single_bit:
  assumes "\<And>k. bit (c :: uint) k \<longleftrightarrow> k = n"
  shows "w AND c = 0 \<longleftrightarrow> \<not> bit w n"
proof
  assume "w AND c = 0"
  then have "\<not> bit (w AND c) n" by simp
  with assms show "\<not> bit w n" by (simp add: bit_and_iff)
next
  assume "\<not> bit w n"
  with assms show "w AND c = 0" by (intro bit_word_eqI) (auto simp: bit_and_iff)
qed

lemma flag_bits:
  "busy b \<longleftrightarrow> bit (flags b) 0" "valid b \<longleftrightarrow> bit (flags b) 1" "dirty b \<longleftrightarrow> bit (flags b) 2"
  using and_single_bit [OF flag_consts(1)] and_single_bit [OF flag_consts(2)]
    and_single_bit [OF flag_consts(3)]
  by (simp_all add: busy_def valid_def dirty_def)

lemma flag_simps [simp]:
  "busy (b\<lparr>flags := f OR B_BUSY\<rparr>)"
  "valid (b\<lparr>flags := flags c OR B_BUSY\<rparr>) = valid c"
  "dirty (b\<lparr>flags := flags c OR B_BUSY\<rparr>) = dirty c"
  "busy (b\<lparr>flags := flags c OR B_DIRTY\<rparr>) = busy c"
  "valid (b\<lparr>flags := flags c OR B_DIRTY\<rparr>) = valid c"
  "dirty (b\<lparr>flags := f OR B_DIRTY\<rparr>)"
  "busy (b\<lparr>flags := flags c OR B_VALID\<rparr>) = busy c"
  "valid (b\<lparr>flags := f OR B_VALID\<rparr>)"
  "dirty (b\<lparr>flags := flags c OR B_VALID\<rparr>) = dirty c"
  "\<not> busy (b\<lparr>flags := f AND NOT B_BUSY\<rparr>)"
  "valid (b\<lparr>flags := flags c AND NOT B_BUSY\<rparr>) = valid c"
  "dirty (b\<lparr>flags := flags c AND NOT B_BUSY\<rparr>) = dirty c"
  "busy (b\<lparr>flags := flags c AND NOT B_DIRTY OR B_VALID\<rparr>) = busy c"
  "valid (b\<lparr>flags := f AND NOT B_DIRTY OR B_VALID\<rparr>)"
  "\<not> dirty (b\<lparr>flags := f AND NOT B_DIRTY OR B_VALID\<rparr>)"
  "busy (b\<lparr>flags := B_BUSY\<rparr>)" "\<not> valid (b\<lparr>flags := B_BUSY\<rparr>)" "\<not> dirty (b\<lparr>flags := B_BUSY\<rparr>)"
  by (simp_all add: flag_bits bit_simps flag_consts)

lemma flag_other [simp]:
  "busy (b\<lparr>data := x\<rparr>) = busy b" "valid (b\<lparr>data := x\<rparr>) = valid b" "dirty (b\<lparr>data := x\<rparr>) = dirty b"
  "busy (b\<lparr>dev := d\<rparr>) = busy b" "valid (b\<lparr>dev := d\<rparr>) = valid b" "dirty (b\<lparr>dev := d\<rparr>) = dirty b"
  "busy (b\<lparr>sector := n\<rparr>) = busy b" "valid (b\<lparr>sector := n\<rparr>) = valid b" "dirty (b\<lparr>sector := n\<rparr>) = dirty b"
  "busy (b\<lparr>bnext := i\<rparr>) = busy b" "valid (b\<lparr>bnext := i\<rparr>) = valid b" "dirty (b\<lparr>bnext := i\<rparr>) = dirty b"
  "busy (b\<lparr>bprev := i\<rparr>) = busy b" "valid (b\<lparr>bprev := i\<rparr>) = valid b" "dirty (b\<lparr>bprev := i\<rparr>) = dirty b"
  by (simp_all add: busy_def valid_def dirty_def)

lemma nothing_to_do: "flags b AND (B_VALID OR B_DIRTY) = B_VALID \<longleftrightarrow> valid b \<and> \<not> dirty b"
proof
  assume e: "flags b AND (B_VALID OR B_DIRTY) = B_VALID"
  then have "bit (flags b AND (B_VALID OR B_DIRTY)) 1 = bit B_VALID 1"
    "bit (flags b AND (B_VALID OR B_DIRTY)) 2 = bit B_VALID 2" by (simp_all only:)
  then show "valid b \<and> \<not> dirty b" by (simp add: flag_bits bit_simps flag_consts)
next
  assume "valid b \<and> \<not> dirty b"
  then show "flags b AND (B_VALID OR B_DIRTY) = B_VALID"
    by (intro bit_word_eqI) (auto simp: flag_bits bit_simps flag_consts)
qed

section \<open>The operations evaluated\<close>

lemma ring_cong: "nx s = nx t \<Longrightarrow> pv s = pv t \<Longrightarrow> ring s xs = ring t xs"
  by (simp add: ring_def)

lemma ring_settled [simp]: "ring (settled s) xs = ring s xs" "ring (taken lk s) xs = ring s xs"
  by (rule ring_cong; simp add: nx_def pv_def)+

lemma sched_not_Ok [simp]: "sched s \<noteq> Ok u t"
  by (simp add: sched_def swtch_def curproc_def readeflags_if_def kop_simps split: option.split)

lemma sleep_not_Ok [simp]: "sleep ch lk s \<noteq> Ok u t"
  by (auto simp: sleep_def kop_simps split: option.split res.split)

section \<open>The cache\<close>

text \<open>
  \<open>bc_wf s xs\<close>: \<open>xs\<close> is the ring; a block is cached in at most one buffer; a buffer that no
  process uses holds a block of disk 1 that has been read, and it agrees with the disk
  unless it is marked dirty.
\<close>

definition bc_wf :: "'e kbio_scheme \<Rightarrow> nat list \<Rightarrow> bool" where
  "bc_wf s xs \<longleftrightarrow> ring s xs \<and>
     (\<forall>b < NBUF. \<forall>c < NBUF. dev (bufs s b) = 1 \<longrightarrow> dev (bufs s c) = 1 \<longrightarrow>
        sector (bufs s b) = sector (bufs s c) \<longrightarrow> b = c) \<and>
     (\<forall>b < NBUF. dev (bufs s b) = 1 \<longrightarrow> valid (bufs s b)) \<and>
     (\<forall>b < NBUF. dev (bufs s b) = 1 \<longrightarrow> \<not> dirty (bufs s b) \<longrightarrow> \<not> busy (bufs s b) \<longrightarrow>
        data (bufs s b) = memdisk s (sector (bufs s b)))"

definition bc_ready :: "'e kbio_scheme \<Rightarrow> nat list \<Rightarrow> bool" where
  "bc_ready s xs \<longleftrightarrow> bc_wf s xs \<and> idle BcacheLock s \<and> idle PtableLock s \<and> cli_wf s"

text \<open>The content of a block as the file system sees it: through the cache.\<close>

definition holds :: "'e kbio_scheme \<Rightarrow> uint \<Rightarrow> nat \<Rightarrow> bool" where
  "holds s n b \<longleftrightarrow> dev (bufs s b) = 1 \<and> sector (bufs s b) = n"

definition blk :: "'e kbio_scheme \<Rightarrow> uint \<Rightarrow> uchar list" where
  "blk s n = (case find (holds s n) [0..<NBUF] of Some b \<Rightarrow> data (bufs s b) | None \<Rightarrow> memdisk s n)"

lemma bc_wfD:
  assumes "bc_wf s xs"
  shows "ring s xs"
    and "b < NBUF \<Longrightarrow> c < NBUF \<Longrightarrow> holds s n b \<Longrightarrow> holds s n c \<Longrightarrow> b = c"
    and "b < NBUF \<Longrightarrow> dev (bufs s b) = 1 \<Longrightarrow> valid (bufs s b)"
    and "b < NBUF \<Longrightarrow> dev (bufs s b) = 1 \<Longrightarrow> \<not> dirty (bufs s b) \<Longrightarrow> \<not> busy (bufs s b) \<Longrightarrow>
        data (bufs s b) = memdisk s (sector (bufs s b))"
  using assms unfolding bc_wf_def holds_def by blast+

lemma ring_set: "ring s xs \<Longrightarrow> b \<in> set xs \<longleftrightarrow> b < NBUF"
  by (simp add: ring_def)

lemma blk_cached:
  assumes "bc_wf s xs" and "b < NBUF" and "holds s n b"
  shows "blk s n = data (bufs s b)"
proof -
  obtain c where c: "find (holds s n) [0..<NBUF] = Some c"
    using assms(2,3) by (cases "find (holds s n) [0..<NBUF]") (auto simp: find_None_iff)
  then have "c < NBUF" "holds s n c" by (auto simp: find_Some_iff)
  with bc_wfD(2) [OF assms(1,2)] assms(3) have "c = b" by blast
  with c show ?thesis by (simp add: blk_def)
qed

lemma blk_uncached: "(\<And>b. b < NBUF \<Longrightarrow> \<not> holds s n b) \<Longrightarrow> blk s n = memdisk s n"
proof -
  assume "\<And>b. b < NBUF \<Longrightarrow> \<not> holds s n b"
  then have "find (holds s n) [0..<NBUF] = None" by (simp add: find_None_iff)
  then show ?thesis by (simp add: blk_def)
qed

lemma bget_Ok:
  assumes "ring s xs" and "idle BcacheLock s" and "cli_wf s" and "bget d n s = Ok b t"
  shows "b < NBUF" and "\<not> busy (bufs s b)"
    and "dev (bufs s b) = d \<and> sector (bufs s b) = n \<and>
           t = settled (upd_buf b (\<lambda>bp. bp\<lparr>flags := flags bp OR B_BUSY\<rparr>) s)
         \<or> (\<forall>c < NBUF. dev (bufs s c) = d \<longrightarrow> sector (bufs s c) \<noteq> n) \<and> \<not> dirty (bufs s b) \<and>
           t = settled (upd_buf b (\<lambda>bp. bp\<lparr>dev := d, sector := n, flags := B_BUSY\<rparr>) s)"
proof -
  have r: "ring (taken BcacheLock s) xs" using assms(1) by simp
  have e: "bget_loop d n (taken BcacheLock s) = Ok b t"
    using assms(2,4) by (simp add: bget_def)
  show g1: "b < NBUF" and g2: "\<not> busy (bufs s b)" and "dev (bufs s b) = d \<and> sector (bufs s b) = n \<and>
           t = settled (upd_buf b (\<lambda>bp. bp\<lparr>flags := flags bp OR B_BUSY\<rparr>) s)
         \<or> (\<forall>c < NBUF. dev (bufs s c) = d \<longrightarrow> sector (bufs s c) \<noteq> n) \<and> \<not> dirty (bufs s b) \<and>
           t = settled (upd_buf b (\<lambda>bp. bp\<lparr>dev := d, sector := n, flags := B_BUSY\<rparr>) s)"
    using e ring_set [OF assms(1)] assms(2,3)
    by (auto simp: bget_loop_def ring_bget [OF r] kop_simps busy_def dirty_def find_None_iff
        split: option.splits if_splits res.splits dest!: find_SomeD)
qed


lemma iderw_read:
  assumes "busy (bufs s b)" and "\<not> valid (bufs s b)" and "\<not> dirty (bufs s b)" and "iderw b s = Ok u t"
  shows "t = upd_buf b (\<lambda>bp. bp\<lparr>data := memdisk s (sector bp), flags := flags bp OR B_VALID\<rparr>) s
    \<and> dev (bufs s b) = 1 \<and> sector (bufs s b) < disksize s"
  using assms by (auto simp: iderw_def kop_simps nothing_to_do busy_def [symmetric] dirty_def [symmetric]
      upd_buf_def not_le split: if_splits)

lemma bread_Ok:
  assumes "bc_ready s xs" and "bread 1 n s = Ok b t"
  shows "b < NBUF \<and> \<not> busy (bufs s b) \<and>
    (\<exists>bp. t = settled (s\<lparr>bufs := (bufs s)(b := bp)\<rparr>) \<and> dev bp = 1 \<and> sector bp = n \<and> busy bp \<and> valid bp
      \<and> data bp = blk s n \<and> bnext bp = bnext (bufs s b) \<and> bprev bp = bprev (bufs s b)
      \<and> (dirty bp \<longleftrightarrow> dirty (bufs s b)) \<and> (dirty bp \<longrightarrow> holds s n b)
      \<and> (\<not> dirty bp \<longrightarrow> data bp = memdisk s n) \<and> (\<forall>c < NBUF. holds s n c \<longrightarrow> c = b))"
proof -
  from assms(1) have wf: "bc_wf s xs" and lk: "idle BcacheLock s" "cli_wf s"
    by (simp_all add: bc_ready_def)
  from assms(2) [unfolded bread_def] obtain b' t1 where g': "bget 1 n s = Ok b' t1"
    and r: "bnd (gets (\<lambda>s. flags (bufs s b'))) (\<lambda>fl.
        seq (whenM (fl AND B_VALID = 0) (iderw b')) (ret b')) t1 = Ok b t"
    by (rule bnd_OkE)
  then have g: "bget 1 n s = Ok b t1"
    and rd: "(if valid (bufs t1 b) then Ok () t1 else iderw b t1) = Ok () t"
    by (auto simp: valid_def whenM_apply elim!: seq_OkE split: if_splits)
  note gb = bget_Ok [OF bc_wfD(1) [OF wf] lk g]
  from gb(3) consider
      (hit) "holds s n b" "t1 = settled (upd_buf b (\<lambda>bp. bp\<lparr>flags := flags bp OR B_BUSY\<rparr>) s)"
    | (miss) "\<forall>c < NBUF. \<not> holds s n c" "\<not> dirty (bufs s b)"
        "t1 = settled (upd_buf b (\<lambda>bp. bp\<lparr>dev := 1, sector := n, flags := B_BUSY\<rparr>) s)"
    by (auto simp: holds_def)
  then show ?thesis
  proof cases
    case hit
    then have v: "valid (bufs s b)" using bc_wfD(3) [OF wf gb(1)] by (simp add: holds_def)
    let ?bp = "(bufs s b)\<lparr>flags := flags (bufs s b) OR B_BUSY\<rparr>"
    from rd hit v have t: "t = settled (s\<lparr>bufs := (bufs s)(b := ?bp)\<rparr>)" by (simp add: upd_buf_def)
    have d: "dev ?bp = 1" "sector ?bp = n" using hit(1) by (simp_all add: holds_def)
    have c: "data ?bp = memdisk s n" if "\<not> dirty ?bp"
      using bc_wfD(4) [OF wf gb(1)] d gb(2) that by simp
    have u: "\<forall>c < NBUF. holds s n c \<longrightarrow> c = b" using bc_wfD(2) [OF wf _ gb(1)] hit(1) by blast
    have b: "data ?bp = blk s n" using blk_cached [OF wf gb(1) hit(1)] by simp
    have f: "busy ?bp" "valid ?bp" "bnext ?bp = bnext (bufs s b)" "bprev ?bp = bprev (bufs s b)"
      "dirty ?bp \<longleftrightarrow> dirty (bufs s b)" using v by simp_all
    from t d c u b f hit(1) gb(1,2) show ?thesis by blast
  next
    case miss
    then have "iderw b t1 = Ok () t" using rd by simp
    from iderw_read [OF _ _ _ this] miss have t: "t = upd_buf b (\<lambda>bp. bp\<lparr>data := memdisk t1 (sector bp),
        flags := flags bp OR B_VALID\<rparr>) t1" by simp
    have "blk s n = memdisk s n" using miss(1) by (intro blk_uncached) blast
    then show ?thesis unfolding t using gb(1,2) miss
      by (intro conjI exI [of _ "(bufs s b)\<lparr>dev := 1, sector := n, data := memdisk s n,
             flags := B_BUSY OR B_VALID\<rparr>"])
        (auto simp: upd_buf_def flag_bits bit_simps flag_consts)
  qed
qed

text \<open>
  Changing one buffer: what the cache invariant needs of the new content \<open>bp\<close>.
\<close>

lemma nx_pv_same:
  "bnext bp = bnext (bufs s b) \<Longrightarrow> nx (s\<lparr>bufs := (bufs s)(b := bp)\<rparr>) = nx s"
  "bprev bp = bprev (bufs s b) \<Longrightarrow> pv (s\<lparr>bufs := (bufs s)(b := bp)\<rparr>) = pv s"
  by (auto simp: nx_def pv_def)

lemma bc_wf_upd:
  assumes "bc_wf s xs" and "bnext bp = bnext (bufs s b)" and "bprev bp = bprev (bufs s b)"
    and "b < NBUF" and "dev bp = 1" and "valid bp" and "\<forall>c < NBUF. holds s (sector bp) c \<longrightarrow> c = b"
    and "\<not> dirty bp \<Longrightarrow> \<not> busy bp \<Longrightarrow> data bp = memdisk s (sector bp)"
  shows "bc_wf (s\<lparr>bufs := (bufs s)(b := bp)\<rparr>) xs"
  unfolding bc_wf_def
proof (intro conjI allI impI)
  show "ring (s\<lparr>bufs := (bufs s)(b := bp)\<rparr>) xs"
    by (rule iffD2 [OF ring_cong [OF nx_pv_same(1) [OF assms(2)] nx_pv_same(2) [OF assms(3)]]
        bc_wfD(1) [OF assms(1)]])
next
  fix c d
  assume "c < NBUF" "d < NBUF" "dev (bufs (s\<lparr>bufs := (bufs s)(b := bp)\<rparr>) c) = 1"
    "dev (bufs (s\<lparr>bufs := (bufs s)(b := bp)\<rparr>) d) = 1"
    "sector (bufs (s\<lparr>bufs := (bufs s)(b := bp)\<rparr>) c) = sector (bufs (s\<lparr>bufs := (bufs s)(b := bp)\<rparr>) d)"
  note h = this
  show "c = d"
  proof (cases "c = b"; cases "d = b")
    assume "c = b" "d \<noteq> b"
    with h assms(7) [rule_format, of d] show ?thesis by (simp add: holds_def)
  next
    assume "c \<noteq> b" "d = b"
    with h assms(7) [rule_format, of c] show ?thesis by (simp add: holds_def)
  next
    assume "c \<noteq> b" "d \<noteq> b"
    with h bc_wfD(2) [OF assms(1), of c d "sector (bufs s c)"] show ?thesis by (simp add: holds_def)
  qed simp
next
  fix c
  assume "c < NBUF" "dev (bufs (s\<lparr>bufs := (bufs s)(b := bp)\<rparr>) c) = 1"
  then show "valid (bufs (s\<lparr>bufs := (bufs s)(b := bp)\<rparr>) c)"
    using assms(6) bc_wfD(3) [OF assms(1)] by (auto split: if_splits)
next
  fix c
  assume "c < NBUF" "dev (bufs (s\<lparr>bufs := (bufs s)(b := bp)\<rparr>) c) = 1"
    "\<not> dirty (bufs (s\<lparr>bufs := (bufs s)(b := bp)\<rparr>) c)" "\<not> busy (bufs (s\<lparr>bufs := (bufs s)(b := bp)\<rparr>) c)"
  then show "data (bufs (s\<lparr>bufs := (bufs s)(b := bp)\<rparr>) c) =
      memdisk (s\<lparr>bufs := (bufs s)(b := bp)\<rparr>) (sector (bufs (s\<lparr>bufs := (bufs s)(b := bp)\<rparr>) c))"
    using assms(8) bc_wfD(4) [OF assms(1)] by (auto split: if_splits)
qed

lemma blk_upd:
  assumes "bc_wf s xs" and "b < NBUF" and "dev bp = 1"
    and "\<forall>c < NBUF. holds s (sector bp) c \<longrightarrow> c = b"
    and "\<And>n. holds s n b \<Longrightarrow> n \<noteq> sector bp \<Longrightarrow> data (bufs s b) = memdisk s n"
  shows "blk (s\<lparr>bufs := (bufs s)(b := bp)\<rparr>) = (blk s)(sector bp := data bp)"
proof
  fix n
  let ?t = "s\<lparr>bufs := (bufs s)(b := bp)\<rparr>"
  show "blk ?t n = ((blk s)(sector bp := data bp)) n"
  proof (cases "n = sector bp")
    case True
    have "find (holds ?t n) [0..<NBUF] = Some b"
    proof (cases "find (holds ?t n) [0..<NBUF]")
      case None
      then have "\<not> holds ?t n b" using assms(2) by (simp add: find_None_iff)
      with assms(3) True show ?thesis by (simp add: holds_def)
    next
      case (Some c)
      from find_SomeD [OF Some] assms(4) True show ?thesis
        using Some by (auto simp: holds_def split: if_splits)
    qed
    with True show ?thesis by (simp add: blk_def)
  next
    case False
    then have nb: "\<not> holds ?t n b" by (simp add: holds_def)
    show ?thesis
    proof (cases "\<exists>c < NBUF. c \<noteq> b \<and> holds s n c")
      case True
      then obtain c where c: "c < NBUF" "c \<noteq> b" "holds s n c" by blast
      have "find (holds ?t n) [0..<NBUF] = Some c"
      proof (cases "find (holds ?t n) [0..<NBUF]")
        case None
        then have "\<not> holds ?t n c" using c(1) by (simp add: find_None_iff)
        with c show ?thesis by (simp add: holds_def)
      next
        case (Some e)
        from find_SomeD [OF Some] nb have "e < NBUF" "holds s n e"
          by (auto simp: holds_def split: if_splits)
        with bc_wfD(2) [OF assms(1) c(1), of e n] c(3) Some show ?thesis by simp
      qed
      with False c blk_cached [OF assms(1) c(1,3)] show ?thesis by (simp add: blk_def)
    next
      case False2: False
      then have "blk ?t n = memdisk s n"
        using nb by (subst blk_uncached) (auto simp: holds_def split: if_splits)
      moreover have "blk s n = memdisk s n"
      proof (cases "holds s n b")
        case True
        with assms(5) False blk_cached [OF assms(1,2) True] show ?thesis by simp
      next
        case f: False
        with False2 show ?thesis by (intro blk_uncached) blast
      qed
      ultimately show ?thesis using False by simp
    qed
  qed
qed

end
