(* ===== verification/Bcache.thy ===== *)
theory Bcache
  imports Bio
begin

unbundle bit_operations_syntax

text \<open>
  The buffer cache as its clients see it.  A client holds some buffers (those it got from \<open>bread\<close> and
  has not released), the content \<open>blk\<close> of every block as seen through the cache, and the
  set of pinned blocks: those marked dirty, which may differ from the disk and stay in the cache.
  \<open>spare\<close> counts the buffers \<open>bget\<close> can recycle; while there is one, \<open>bread\<close> does not panic.
\<close>

section \<open>The client's view\<close>

definition held :: "'e kbio_scheme \<Rightarrow> nat \<Rightarrow> uint option" where
  "held s b = (if b < NBUF \<and> busy (bufs s b) then Some (sector (bufs s b)) else None)"

definition pinned :: "'e kbio_scheme \<Rightarrow> uint set" where
  "pinned s = {n. \<exists>b < NBUF. holds s n b \<and> dirty (bufs s b)}"

definition spares :: "'e kbio_scheme \<Rightarrow> nat set" where
  "spares s = {b. b < NBUF \<and> \<not> busy (bufs s b) \<and> \<not> dirty (bufs s b)}"

definition spare :: "'e kbio_scheme \<Rightarrow> nat" where
  "spare s = card (spares s)"

definition bcache_ok :: "'e kbio_scheme \<Rightarrow> bool" where
  "bcache_ok s \<longleftrightarrow> (\<exists>xs. bc_ready s xs) \<and> (\<forall>b < NBUF. busy (bufs s b) \<longrightarrow> dev (bufs s b) = 1)"

text \<open>
  What an operation of the cache leaves alone: everything but the buffers, the disk, the processes
  it wakes up and the interrupt bookkeeping of the locks it took and gave back.
\<close>

definition woken :: "proc list \<Rightarrow> proc list \<Rightarrow> bool" where
  "woken = list_all2 (\<lambda>p q. q = p \<or> state p = SLEEPING \<and> q = p\<lparr>state := RUNNABLE\<rparr>)"

definition bframe :: "'e kbio_scheme \<Rightarrow> 'e kbio_scheme \<Rightarrow> bool" where
  "bframe s t \<longleftrightarrow> (\<exists>q B M W P. woken (ptable s) P \<and>
     t = (if q then settled else id) (s\<lparr>ptable := P, bufs := B, memdisk := M, dwrites := W\<rparr>))"

lemma woken_refl [simp]: "woken ps ps"
  by (simp add: woken_def list_all2_same)

lemma woken_trans: "woken ps qs \<Longrightarrow> woken qs rs \<Longrightarrow> woken ps rs"
  unfolding woken_def by (rule list_all2_trans [where bs = qs]) auto

lemma woken_wake: "woken ps (map (wake ch) ps)"
  by (auto simp: woken_def list_all2_conv_all_nth wake_def)

lemma bframeI:
  "woken (ptable s) P \<Longrightarrow> t = settled (s\<lparr>ptable := P, bufs := B, memdisk := M, dwrites := W\<rparr>) \<Longrightarrow> bframe s t"
  unfolding bframe_def by (rule exI [of _ True]) auto

lemma bframe_refl [simp]: "bframe s s"
  unfolding bframe_def by (intro exI [of _ False] exI [of _ "ptable s"] exI [of _ "bufs s"]
      exI [of _ "memdisk s"] exI [of _ "dwrites s"]) simp

lemma bframe_trans:
  assumes "bframe s t" and "bframe t u"
  shows "bframe s u"
proof -
  from assms(1) obtain q B M W P where 1: "woken (ptable s) P"
    and t: "t = (if q then settled else id) (s\<lparr>ptable := P, bufs := B, memdisk := M, dwrites := W\<rparr>)"
    by (auto simp: bframe_def)
  from assms(2) obtain r B' M' W' P' where 2: "woken (ptable t) P'"
    and u: "u = (if r then settled else id) (t\<lparr>ptable := P', bufs := B', memdisk := M', dwrites := W'\<rparr>)"
    by (auto simp: bframe_def)
  have "woken (ptable s) P'" using 1 2 woken_trans by (auto simp: t split: if_splits)
  moreover have "u = (if q \<or> r then settled else id) (s\<lparr>ptable := P', bufs := B', memdisk := M', dwrites := W'\<rparr>)"
    by (cases q; cases r) (simp_all add: u t)
  ultimately show ?thesis unfolding bframe_def by blast
qed

lemma bframe_buf: "bframe s (upd_buf b f s)"
  unfolding bframe_def upd_buf_def
  by (intro exI [of _ False] exI [of _ "ptable s"] exI [of _ "(bufs s)(b := f (bufs s b))"]
      exI [of _ "memdisk s"] exI [of _ "dwrites s"]) simp

lemma disksize_frame: "bframe s t \<Longrightarrow> disksize t = disksize s"
  by (auto simp: bframe_def split: if_splits)

section \<open>The operations in the client's view\<close>

lemma bget_total:
  assumes "ring s xs" and "idle BcacheLock s" and "cli_wf s"
    and "\<And>c. c < NBUF \<Longrightarrow> dev (bufs s c) = d \<Longrightarrow> sector (bufs s c) = n \<Longrightarrow> \<not> busy (bufs s c)"
    and "(\<exists>c < NBUF. dev (bufs s c) = d \<and> sector (bufs s c) = n) \<or> spares s \<noteq> {}"
  obtains b t where "bget d n s = Ok b t"
proof -
  let ?s = "taken BcacheLock s"
  have r: "ring ?s xs" using assms(1) by simp
  have mem: "c \<in> set xs \<longleftrightarrow> c < NBUF" for c using ring_set [OF assms(1)] .
  show thesis
  proof (cases "find (\<lambda>b. dev (bufs s b) = d \<and> sector (bufs s b) = n) xs")
    case (Some c)
    from find_SomeD [OF this] mem assms(4) have "\<not> busy (bufs s c)" by blast
    then show thesis using that assms(2,3) Some
      by (simp add: bget_def bget_loop_def ring_bget [OF r] kop_simps busy_def)
  next
    case None
    then have "spares s \<noteq> {}" using assms(5) mem by (auto simp: find_None_iff)
    then obtain c where c: "c < NBUF" "\<not> busy (bufs s c)" "\<not> dirty (bufs s c)" by (auto simp: spares_def)
    obtain v where "find (\<lambda>b. flags (bufs s b) AND B_BUSY = 0 \<and> flags (bufs s b) AND B_DIRTY = 0) (rev xs) = Some v"
      using c mem by (cases "find (\<lambda>b. flags (bufs s b) AND B_BUSY = 0 \<and> flags (bufs s b) AND B_DIRTY = 0) (rev xs)")
        (auto simp: find_None_iff busy_def dirty_def)
    then show thesis using that assms(2,3) None
      by (simp add: bget_def bget_loop_def ring_bget [OF r] kop_simps)
  qed
qed

lemma iderw_read_total:
  assumes "busy (bufs s b)" and "\<not> valid (bufs s b)" and "\<not> dirty (bufs s b)" and "dev (bufs s b) = 1"
    and "sector (bufs s b) < disksize s"
  obtains t where "iderw b s = Ok () t"
  using assms that
  by (auto simp: iderw_def kop_simps nothing_to_do busy_def [symmetric] dirty_def [symmetric] not_le [symmetric])

lemma bread_total:
  assumes "bc_ready s xs" and "n < disksize s"
    and "\<And>c. c < NBUF \<Longrightarrow> holds s n c \<Longrightarrow> \<not> busy (bufs s c)"
    and "(\<exists>c < NBUF. holds s n c) \<or> spares s \<noteq> {}"
  obtains b t where "bread 1 n s = Ok b t"
proof -
  from assms(1) have wf: "bc_wf s xs" and lk: "idle BcacheLock s" "cli_wf s"
    by (simp_all add: bc_ready_def)
  obtain b t where g: "bget 1 n s = Ok b t"
    using bget_total [OF bc_wfD(1) [OF wf] lk, of 1 n] assms(3,4) unfolding holds_def by blast
  note gb = bget_Ok [OF bc_wfD(1) [OF wf] lk g]
  show thesis
  proof (cases "valid (bufs t b)")
    case True
    then show thesis using that g by (simp add: bread_def kop_simps valid_def)
  next
    case False
    then have "\<forall>c < NBUF. dev (bufs s c) = 1 \<longrightarrow> sector (bufs s c) \<noteq> n"
      and t: "t = settled (upd_buf b (\<lambda>bp. bp\<lparr>dev := 1, sector := n, flags := B_BUSY\<rparr>) s)"
      using gb(3) bc_wfD(3) [OF wf gb(1)] by auto
    obtain u where "iderw b t = Ok () u"
      by (rule iderw_read_total [of t b]) (use t assms(2) in simp_all)
    with False show thesis using that g by (simp add: bread_def kop_simps valid_def)
  qed
qed


lemma spare_pos: "0 < spare s \<longleftrightarrow> spares s \<noteq> {}"
proof -
  have "finite (spares s)" by (simp add: spares_def)
  then show ?thesis by (auto simp: spare_def card_gt_0_iff)
qed

text \<open>Replacing one buffer, in terms of the view.\<close>

lemma held_upd: "b < NBUF \<Longrightarrow> held (s\<lparr>bufs := (bufs s)(b := bp)\<rparr>) =
    (held s)(b := (if busy bp then Some (sector bp) else None))"
  by (auto simp: held_def)

lemma pinned_upd:
  assumes "b < NBUF" and "dev bp = 1" and "\<And>m. holds s m b \<Longrightarrow> dirty (bufs s b) \<Longrightarrow> m = sector bp"
    and "\<And>c. c < NBUF \<Longrightarrow> holds s (sector bp) c \<Longrightarrow> c = b"
  shows "pinned (s\<lparr>bufs := (bufs s)(b := bp)\<rparr>) =
    (if dirty bp then insert (sector bp) (pinned s) else pinned s - {sector bp})"
proof (rule set_eqI)
  fix m
  let ?t = "s\<lparr>bufs := (bufs s)(b := bp)\<rparr>"
  have t: "holds ?t m c \<longleftrightarrow> (if c = b then m = sector bp else holds s m c)" for c
    using assms(2) by (auto simp: holds_def)
  show "m \<in> pinned ?t \<longleftrightarrow> m \<in> (if dirty bp then insert (sector bp) (pinned s) else pinned s - {sector bp})"
  proof (cases "m = sector bp")
    case True
    have "m \<in> pinned ?t \<longleftrightarrow> dirty bp"
      unfolding pinned_def mem_Collect_eq t using True assms(1) assms(4)
      by (auto split: if_splits)
    with True show ?thesis by simp
  next
    case False
    have "c \<noteq> b" if "holds s m c" "dirty (bufs s c)" for c using that False assms(3) [of m] by blast
    then have "m \<in> pinned ?t \<longleftrightarrow> m \<in> pinned s"
      unfolding pinned_def mem_Collect_eq t using False by (auto split: if_splits)
    with False show ?thesis by simp
  qed
qed

lemma spare_upd:
  assumes "b < NBUF"
  shows "spare (s\<lparr>bufs := (bufs s)(b := bp)\<rparr>) + (if busy (bufs s b) \<or> dirty (bufs s b) then 0 else 1) =
    spare s + (if busy bp \<or> dirty bp then 0 else 1)"
proof -
  let ?t = "s\<lparr>bufs := (bufs s)(b := bp)\<rparr>"
  have fin: "finite (spares s - {b})" by (simp add: spares_def)
  have 1: "spares ?t = (if busy bp \<or> dirty bp then {} else {b}) \<union> (spares s - {b})"
    and 2: "spares s = (if busy (bufs s b) \<or> dirty (bufs s b) then {} else {b}) \<union> (spares s - {b})"
    using assms by (auto simp: spares_def split: if_splits)
  have "spare ?t = (if busy bp \<or> dirty bp then 0 else 1) + card (spares s - {b})"
    unfolding spare_def 1 using fin by (simp add: card.insert_remove)
  moreover have "spare s = (if busy (bufs s b) \<or> dirty (bufs s b) then 0 else 1) + card (spares s - {b})"
    unfolding spare_def by (subst 2) (use fin in \<open>simp add: card.insert_remove\<close>)
  ultimately show ?thesis by simp
qed

lemma holds_other [simp]: "holds (settled s) = holds s" "holds (s\<lparr>ptable := P\<rparr>) = holds s"
  by (simp_all add: holds_def fun_eq_iff)

lemma view_settled [simp]:
  "held (settled s) = held s" "pinned (settled s) = pinned s" "spare (settled s) = spare s"
  "blk (settled s) = blk s" "bcache_ok (settled s) = bcache_ok s"
  by (auto simp: held_def pinned_def spare_def spares_def blk_def fun_eq_iff bcache_ok_def
      bc_ready_def bc_wf_def split: option.split)

lemma view_ptable [simp]:
  "held (s\<lparr>ptable := P\<rparr>) = held s" "pinned (s\<lparr>ptable := P\<rparr>) = pinned s" "spare (s\<lparr>ptable := P\<rparr>) = spare s"
  "blk (s\<lparr>ptable := P\<rparr>) = blk s" "ring (s\<lparr>ptable := P\<rparr>) xs = ring s xs" "bcache_ok (s\<lparr>ptable := P\<rparr>) = bcache_ok s"
proof -
  show r: "ring (s\<lparr>ptable := P\<rparr>) xs = ring s xs" for xs by (simp add: ring_def nx_def pv_def)
  show "held (s\<lparr>ptable := P\<rparr>) = held s" "pinned (s\<lparr>ptable := P\<rparr>) = pinned s"
    "spare (s\<lparr>ptable := P\<rparr>) = spare s" "blk (s\<lparr>ptable := P\<rparr>) = blk s"
    by (simp_all add: held_def pinned_def spare_def spares_def blk_def fun_eq_iff split: option.split)
  show "bcache_ok (s\<lparr>ptable := P\<rparr>) = bcache_ok s"
    by (simp add: bcache_ok_def bc_ready_def bc_wf_def r)
qed

lemma bcache_okD:
  assumes "bcache_ok s" and "held s b = Some n"
  shows "b < NBUF" and "holds s n b" and "busy (bufs s b)" and "sector (bufs s b) = n"
    and "dev (bufs s b) = 1" and "valid (bufs s b)"
    and "\<And>c. c < NBUF \<Longrightarrow> holds s n c \<Longrightarrow> c = b" and "data (bufs s b) = blk s n"
    and "dirty (bufs s b) \<longleftrightarrow> n \<in> pinned s"
proof -
  from assms obtain xs where wf: "bc_wf s xs" by (auto simp: bcache_ok_def bc_ready_def)
  show b: "b < NBUF" "busy (bufs s b)" "sector (bufs s b) = n"
    using assms(2) by (simp_all add: held_def split: if_splits)
  have all: "\<forall>b < NBUF. busy (bufs s b) \<longrightarrow> dev (bufs s b) = 1" using assms(1) unfolding bcache_ok_def by (rule conjunct2)
  show d: "dev (bufs s b) = 1" using all b(1,2) by blast
  show h: "holds s n b" using b(3) d by (simp add: holds_def)
  show "valid (bufs s b)" using bc_wfD(3) [OF wf b(1) d] .
  show u: "c = b" if "c < NBUF" "holds s n c" for c using bc_wfD(2) [OF wf that(1) b(1) that(2) h] .
  show "data (bufs s b) = blk s n" using blk_cached [OF wf b(1) h] by simp
  show "dirty (bufs s b) \<longleftrightarrow> n \<in> pinned s" unfolding pinned_def mem_Collect_eq using b(1) h u by blast
qed

lemma clean_blk:
  assumes "bcache_ok s" and "n \<notin> pinned s" and "n \<notin> ran (held s)"
  shows "blk s n = memdisk s n"
proof (cases "\<exists>b < NBUF. holds s n b")
  case True
  then obtain b where b: "b < NBUF" "holds s n b" by blast
  from assms(1) obtain xs where wf: "bc_wf s xs" by (auto simp: bcache_ok_def bc_ready_def)
  have "\<not> dirty (bufs s b)" using assms(2) b by (auto simp: pinned_def)
  moreover have "held s b = Some n" if "busy (bufs s b)" using b that by (simp add: held_def holds_def)
  then have "\<not> busy (bufs s b)" using assms(3) by (auto intro: ranI)
  ultimately have "data (bufs s b) = memdisk s n" using bc_wfD(4) [OF wf b(1)] b(2) by (simp add: holds_def)
  then show ?thesis using blk_cached [OF wf b] by simp
next
  case False
  then show ?thesis by (intro blk_uncached) blast
qed

lemma bread_view:
  assumes ok: "bcache_ok s" and "n < disksize s" and "n \<notin> ran (held s)" and "n \<in> pinned s \<or> 0 < spare s"
  obtains b t where "bread 1 n s = Ok b t" and "bframe s t" and "bcache_ok t" and "held s b = None"
    and "held t = (held s)(b \<mapsto> n)" and "blk t = blk s" and "pinned t = pinned s"
    and "memdisk t = memdisk s" and "dwrites t = dwrites s"
    and "spare t = spare s - (if n \<in> pinned s then 0 else 1)"
proof -
  from ok obtain xs where rdy: "bc_ready s xs" by (auto simp: bcache_ok_def)
  then have wf: "bc_wf s xs" by (simp add: bc_ready_def)
  have nb: "\<not> busy (bufs s c)" if "c < NBUF" "holds s n c" for c
    using assms(3) that by (auto simp: held_def holds_def ran_def split: if_splits)
  have "(\<exists>c < NBUF. holds s n c) \<or> spares s \<noteq> {}"
    using assms(4) by (auto simp: pinned_def spare_pos)
  from bread_total [OF rdy assms(2) nb this] obtain b t where e: "bread 1 n s = Ok b t" by blast
  from bread_Ok [OF rdy e] obtain bp where b: "b < NBUF" "\<not> busy (bufs s b)"
    and t: "t = settled (s\<lparr>bufs := (bufs s)(b := bp)\<rparr>)" and bp: "dev bp = 1" "sector bp = n" "busy bp" "valid bp"
      "data bp = blk s n" "bnext bp = bnext (bufs s b)" "bprev bp = bprev (bufs s b)"
      "dirty bp \<longleftrightarrow> dirty (bufs s b)" "dirty bp \<longrightarrow> holds s n b"
    and u: "\<forall>c < NBUF. holds s n c \<longrightarrow> c = b" by blast
  have pin: "n \<in> pinned s \<longleftrightarrow> dirty bp"
    unfolding pinned_def mem_Collect_eq using u b(1) bp(8,9) by blast
  let ?t = "s\<lparr>bufs := (bufs s)(b := bp)\<rparr>"
  have u': "\<forall>c < NBUF. holds s (sector bp) c \<longrightarrow> c = b" unfolding bp(2) by (rule u)
  have wf': "bc_wf ?t xs" by (rule bc_wf_upd [OF wf bp(6,7) b(1) bp(1,4) u']) (simp add: bp)
  have "bcache_ok ?t" unfolding bcache_ok_def using wf' rdy ok bp
    by (auto simp: bc_ready_def bcache_ok_def)
  moreover have "blk ?t = (blk s)(sector bp := data bp)"
  proof (rule blk_upd [OF wf b(1) bp(1) u'])
    show "data (bufs s b) = memdisk s m" if "holds s m b" "m \<noteq> sector bp" for m
      using that bp bc_wfD(4) [OF wf b(1)] b(2) by (auto simp: holds_def)
  qed
  then have "blk ?t = blk s" using bp by simp
  moreover have "pinned ?t = (if dirty bp then insert (sector bp) (pinned s) else pinned s - {sector bp})"
    by (rule pinned_upd [OF b(1) bp(1)]) (use bp u' in \<open>auto simp: holds_def\<close>)
  then have "pinned ?t = pinned s" using pin bp(2) by auto
  moreover have "spare ?t = spare s - (if n \<in> pinned s then 0 else 1)"
    using spare_upd [OF b(1), of s bp] b bp pin by (auto split: if_splits)
  moreover have "held ?t = (held s)(b \<mapsto> n)" using held_upd [OF b(1), of s bp] bp by simp
  moreover have "bframe s t"
    by (rule bframeI [where P = "ptable s" and B = "bufs ?t" and M = "memdisk s" and W = "dwrites s"])
      (simp_all add: t)
  moreover have "held s b = None" using b by (simp add: held_def)
  ultimately show thesis using that e by (simp add: t)
qed


text \<open>Moving a buffer to the front of the ring.\<close>

lemma links_unlink:
  assumes "nx s b \<noteq> b"
  shows "nx (bunlink b s) = (nx s)(pv s b := nx s b)" and "pv (bunlink b s) = (pv s)(nx s b := pv s b)"
  using assms by (auto simp: nx_def pv_def bunlink_def Let_def fun_eq_iff)

lemma links_push:
  assumes "b \<noteq> bhead"
  shows "nx (bpush b s) = (nx s)(b := nx s bhead, bhead := b)"
    and "pv (bpush b s) = (pv s)(b := bhead, nx s bhead := b)"
  using assms by (auto simp: nx_def pv_def bpush_def Let_def fun_eq_iff)

lemma body_links [simp]:
  "dev (bufs (bunlink b s) c) = dev (bufs s c)" "sector (bufs (bunlink b s) c) = sector (bufs s c)"
  "flags (bufs (bunlink b s) c) = flags (bufs s c)" "data (bufs (bunlink b s) c) = data (bufs s c)"
  "memdisk (bunlink b s) = memdisk s" "dwrites (bunlink b s) = dwrites s" "disksize (bunlink b s) = disksize s"
  "dev (bufs (bpush b s) c) = dev (bufs s c)" "sector (bufs (bpush b s) c) = sector (bufs s c)"
  "flags (bufs (bpush b s) c) = flags (bufs s c)" "data (bufs (bpush b s) c) = data (bufs s c)"
  "memdisk (bpush b s) = memdisk s" "dwrites (bpush b s) = dwrites s" "disksize (bpush b s) = disksize s"
  "ptable (bpush b s) = ptable s" "ptable (bunlink b s) = ptable s"
  by (simp_all add: bunlink_def bpush_def Let_def)

lemma links_lock [simp]:
  "bunlink b (taken lk s) = taken lk (bunlink b s)" "bpush b (taken lk s) = taken lk (bpush b s)"
  "idle lk (bunlink b s) = idle lk s" "idle lk (bpush b s) = idle lk s"
  "cli_wf (bunlink b s) = cli_wf s" "cli_wf (bpush b s) = cli_wf s"
  by (simp_all add: bunlink_def bpush_def Let_def)

lemma links_frame: "(bpush b (bunlink b s))\<lparr>bufs := B\<rparr> = s\<lparr>bufs := B\<rparr>"
  by (simp add: bunlink_def bpush_def Let_def upd_buf_def)

lemma bufs_ptable_swap: "s\<lparr>bufs := B, ptable := P\<rparr> = s\<lparr>ptable := P, bufs := B\<rparr>"
  by (rule kbio.equality) simp_all

lemma last_rev_head: "last (a # rev xs) = hd (xs @ [a])"
  by (cases xs) simp_all

lemma ring_move_front:
  assumes "ring s (ys @ b # zs)"
  shows "ring (bpush b (bunlink b s)) (b # ys @ zs)"
proof -
  from assms have d: "distinct (bhead # ys @ b # zs)" and st: "set (ys @ b # zs) = {0..<NBUF}"
    and on: "orbit (nx s) (ys @ b # zs)" and op': "orbit (pv s) (rev (ys @ b # zs))"
    unfolding ring_def by blast+
  have op: "orbit (pv s) (rev zs @ b # rev ys)" using op' by simp
  obtain us p where up: "bhead # ys = us @ [p]" and p: "last (bhead # ys) = p" by (rule cons_snoc)
  obtain vs q where vq: "bhead # rev zs = vs @ [q]" and q: "last (bhead # rev zs) = q" by (rule cons_snoc)
  have nb: "nx s b = q" using orbit_split(4) [OF on up] q by (simp only: last_rev_head)
  have pb: "pv s b = p" using orbit_split(4) [OF op vq] p by (cases ys rule: rev_cases) simp_all
  have ne: "q \<noteq> b" "b \<noteq> bhead" using d q by (cases zs; auto)+
  have n1: "orbit ((nx s)(p := q)) (ys @ zs)" using orbit_remove [OF on d] by (simp only: p nb)
  have dr: "distinct (bhead # rev zs @ b # rev ys)" using d by auto
  have p1: "orbit ((pv s)(q := p)) (rev (ys @ zs))" using orbit_remove [OF op dr] by (simp only: q pb rev_append)
  let ?u = "bunlink b s"
  have nu: "nx ?u = (nx s)(p := q)" and pu: "pv ?u = (pv s)(q := p)"
    using links_unlink [of s b] ne(1) by (simp_all add: nb pb)
  have bn: "b \<notin> set (bhead # ys @ zs)" "bhead \<notin> set (ys @ zs)" using d by auto
  have "nx ?u bhead = hd ((ys @ zs) @ [bhead])" using orbit_first [OF n1] by (simp only: nu)
  then have h: "nx ?u bhead = last (bhead # rev (ys @ zs))" by (simp only: last_rev_head)
  have n2: "orbit (nx (bpush b ?u)) (b # ys @ zs)"
    unfolding links_push(1) [OF ne(2)] using orbit_push_front [OF n1 bn] by (simp only: nu)
  have d': "distinct (bhead # rev (ys @ zs))" using d by auto
  have p2: "orbit (pv (bpush b ?u)) (rev (ys @ zs) @ [b])"
    unfolding links_push(2) [OF ne(2)] h pu by (rule orbit_push_back [OF p1 _ d']) (use bn in simp)
  show ?thesis unfolding ring_def
    using n2 p2 d st by (auto simp: insert_commute)
qed

lemma bc_wf_links:
  assumes "bc_wf s xs" and "ring t ys"
    and "\<And>b. dev (bufs t b) = dev (bufs s b)" and "\<And>b. sector (bufs t b) = sector (bufs s b)"
    and "\<And>b. flags (bufs t b) = flags (bufs s b)" and "\<And>b. data (bufs t b) = data (bufs s b)"
    and "memdisk t = memdisk s"
  shows "bc_wf t ys"
  using assms unfolding bc_wf_def by (simp add: busy_def dirty_def valid_def)

lemma view_links:
  assumes "\<And>b. dev (bufs t b) = dev (bufs s b)" and "\<And>b. sector (bufs t b) = sector (bufs s b)"
    and "\<And>b. flags (bufs t b) = flags (bufs s b)" and "\<And>b. data (bufs t b) = data (bufs s b)"
    and "memdisk t = memdisk s"
  shows "held t = held s" and "pinned t = pinned s" and "spare t = spare s" and "blk t = blk s"
proof -
  have h: "holds t = holds s" using assms by (simp add: holds_def fun_eq_iff)
  show "blk t = blk s" using assms by (simp add: blk_def fun_eq_iff h split: option.split)
  show "held t = held s" "pinned t = pinned s" "spare t = spare s"
    using assms by (simp_all add: held_def pinned_def spare_def spares_def busy_def dirty_def fun_eq_iff h)
qed


text \<open>A client that holds a buffer changes its content, its flags, writes it and releases it.\<close>

lemma held_upd_buf:
  assumes ok: "bcache_ok s" and h: "held s b = Some n"
    and bp: "dev bp = 1" "sector bp = n" "busy bp" "valid bp" "bnext bp = bnext (bufs s b)" "bprev bp = bprev (bufs s b)"
  shows "bcache_ok (s\<lparr>bufs := (bufs s)(b := bp)\<rparr>)" and "held (s\<lparr>bufs := (bufs s)(b := bp)\<rparr>) = held s"
    and "blk (s\<lparr>bufs := (bufs s)(b := bp)\<rparr>) = (blk s)(n := data bp)"
    and "pinned (s\<lparr>bufs := (bufs s)(b := bp)\<rparr>) = (if dirty bp then insert n (pinned s) else pinned s - {n})"
    and "spare (s\<lparr>bufs := (bufs s)(b := bp)\<rparr>) = spare s"
proof -
  note f = bcache_okD [OF ok h]
  let ?t = "s\<lparr>bufs := (bufs s)(b := bp)\<rparr>"
  from ok obtain xs where rdy: "bc_ready s xs" and all: "\<forall>b < NBUF. busy (bufs s b) \<longrightarrow> dev (bufs s b) = 1"
    unfolding bcache_ok_def by blast
  then have wf: "bc_wf s xs" by (simp add: bc_ready_def)
  have u: "\<forall>c < NBUF. holds s (sector bp) c \<longrightarrow> c = b" unfolding bp(2) using f(7) by blast
  have "bc_wf ?t xs" by (rule bc_wf_upd [OF wf bp(5,6) f(1) bp(1,4) u]) (simp add: bp)
  then have "bc_ready ?t xs" using rdy by (simp add: bc_ready_def)
  moreover have "\<forall>c < NBUF. busy (bufs ?t c) \<longrightarrow> dev (bufs ?t c) = 1" using all bp(1) by simp
  ultimately show "bcache_ok ?t" unfolding bcache_ok_def by blast
  show "held ?t = held s" using held_upd [OF f(1), of s bp] bp h by (simp add: fun_upd_idem)
  have hb: "m = sector bp" if "holds s m b" for m using that f(4) bp(2) by (simp add: holds_def)
  show "blk ?t = (blk s)(n := data bp)"
    using blk_upd [OF wf f(1) bp(1) u] hb unfolding bp(2) by blast
  show "pinned ?t = (if dirty bp then insert n (pinned s) else pinned s - {n})"
    using pinned_upd [OF f(1) bp(1), of s] hb u unfolding bp(2) by blast
  show "spare ?t = spare s" using spare_upd [OF f(1), of s bp] bp(3) f(3) by simp
qed

lemma setdata_view:
  assumes ok: "bcache_ok s" and h: "held s b = Some n"
  shows "bcache_ok (upd_buf b (\<lambda>bp. bp\<lparr>data := x\<rparr>) s)" and "held (upd_buf b (\<lambda>bp. bp\<lparr>data := x\<rparr>) s) = held s"
    and "blk (upd_buf b (\<lambda>bp. bp\<lparr>data := x\<rparr>) s) = (blk s)(n := x)"
    and "pinned (upd_buf b (\<lambda>bp. bp\<lparr>data := x\<rparr>) s) = pinned s"
    and "spare (upd_buf b (\<lambda>bp. bp\<lparr>data := x\<rparr>) s) = spare s"
  using held_upd_buf [OF ok h, of "(bufs s b)\<lparr>data := x\<rparr>"] bcache_okD(3-6,9) [OF ok h]
  by (auto simp: upd_buf_def)

lemma pin_view:
  assumes ok: "bcache_ok s" and h: "held s b = Some n"
  shows "bcache_ok (upd_buf b (\<lambda>bp. bp\<lparr>flags := flags bp OR B_DIRTY\<rparr>) s)"
    and "held (upd_buf b (\<lambda>bp. bp\<lparr>flags := flags bp OR B_DIRTY\<rparr>) s) = held s"
    and "blk (upd_buf b (\<lambda>bp. bp\<lparr>flags := flags bp OR B_DIRTY\<rparr>) s) = blk s"
    and "pinned (upd_buf b (\<lambda>bp. bp\<lparr>flags := flags bp OR B_DIRTY\<rparr>) s) = insert n (pinned s)"
    and "spare (upd_buf b (\<lambda>bp. bp\<lparr>flags := flags bp OR B_DIRTY\<rparr>) s) = spare s"
  using held_upd_buf [OF ok h, of "(bufs s b)\<lparr>flags := flags (bufs s b) OR B_DIRTY\<rparr>"] bcache_okD(3-6,8,9) [OF ok h]
  by (simp_all add: upd_buf_def)

lemma ring_disk [simp]: "ring (s\<lparr>memdisk := m\<rparr>) xs = ring s xs" "ring (s\<lparr>dwrites := w\<rparr>) xs = ring s xs"
  "ring (s\<lparr>memdisk := m, dwrites := w\<rparr>) xs = ring s xs"
  by (rule ring_cong; simp add: nx_def pv_def)+

lemma bc_wf_disk:
  assumes "bc_wf s xs" and "b < NBUF" and "holds s n b" and "busy (bufs s b)"
  shows "bc_wf (s\<lparr>memdisk := (memdisk s)(n := x)\<rparr>) xs"
  unfolding bc_wf_def
proof (intro conjI allI impI)
  show "ring (s\<lparr>memdisk := (memdisk s)(n := x)\<rparr>) xs"
    using bc_wfD(1) [OF assms(1)] by simp
next
  fix c
  assume c: "c < NBUF" "dev (bufs (s\<lparr>memdisk := (memdisk s)(n := x)\<rparr>) c) = 1"
    "\<not> dirty (bufs (s\<lparr>memdisk := (memdisk s)(n := x)\<rparr>) c)" "\<not> busy (bufs (s\<lparr>memdisk := (memdisk s)(n := x)\<rparr>) c)"
  have "sector (bufs s c) \<noteq> n" using bc_wfD(2) [OF assms(1) c(1) assms(2) _ assms(3)] c assms(4)
    by (auto simp: holds_def)
  then show "data (bufs (s\<lparr>memdisk := (memdisk s)(n := x)\<rparr>) c) = memdisk (s\<lparr>memdisk := (memdisk s)(n := x)\<rparr>)
      (sector (bufs (s\<lparr>memdisk := (memdisk s)(n := x)\<rparr>) c))"
    using bc_wfD(4) [OF assms(1) c(1)] c by simp
qed (use assms(1) in \<open>simp_all add: bc_wf_def\<close>)

lemma disk_view:
  assumes ok: "bcache_ok s" and h: "held s b = Some n"
  shows "bcache_ok (s\<lparr>memdisk := (memdisk s)(n := x), dwrites := w\<rparr>)"
    and "held (s\<lparr>memdisk := (memdisk s)(n := x), dwrites := w\<rparr>) = held s"
    and "blk (s\<lparr>memdisk := (memdisk s)(n := x), dwrites := w\<rparr>) = blk s"
    and "pinned (s\<lparr>memdisk := (memdisk s)(n := x), dwrites := w\<rparr>) = pinned s"
    and "spare (s\<lparr>memdisk := (memdisk s)(n := x), dwrites := w\<rparr>) = spare s"
proof -
  note f = bcache_okD [OF ok h]
  let ?t = "s\<lparr>memdisk := (memdisk s)(n := x), dwrites := w\<rparr>"
  from ok obtain xs where rdy: "bc_ready s xs" and all: "\<forall>b < NBUF. busy (bufs s b) \<longrightarrow> dev (bufs s b) = 1"
    unfolding bcache_ok_def by blast
  then have "bc_wf (s\<lparr>memdisk := (memdisk s)(n := x)\<rparr>) xs"
    by (intro bc_wf_disk [OF _ f(1,2,3)]) (simp add: bc_ready_def)
  then have "bc_wf ?t xs" by (simp add: bc_wf_def)
  then show "bcache_ok ?t" using rdy all unfolding bcache_ok_def by (auto simp: bc_ready_def)
  have h': "holds ?t = holds s" by (simp add: holds_def fun_eq_iff)
  show "held ?t = held s" "pinned ?t = pinned s" "spare ?t = spare s"
    by (simp_all add: held_def pinned_def spare_def spares_def fun_eq_iff h')
  have "find (holds s n) [0..<NBUF] \<noteq> None" using f(1,2) by (auto simp: find_None_iff)
  then show "blk ?t = blk s" by (auto simp: blk_def fun_eq_iff h' split: option.split)
qed


lemma bwrite_view:
  assumes ok: "bcache_ok s" and h: "held s b = Some n" and "n < disksize s"
  obtains t where "bwrite b s = Ok () t" and "bframe s t" and "bcache_ok t" and "held t = held s" and "blk t = blk s"
    and "pinned t = pinned s - {n}" and "memdisk t = (memdisk s)(n := blk s n)"
    and "dwrites t = dwrites s @ [(n, blk s n)]" and "spare t = spare s"
proof -
  note f = bcache_okD(1-6,8,9) [OF ok h]
  let ?bp = "(bufs s b)\<lparr>flags := (flags (bufs s b) OR B_DIRTY) AND NOT B_DIRTY OR B_VALID\<rparr>"
  let ?u = "s\<lparr>bufs := (bufs s)(b := ?bp)\<rparr>"
  let ?w = "dwrites s @ [(n, blk s n)]"
  let ?t = "?u\<lparr>memdisk := (memdisk ?u)(n := blk s n), dwrites := ?w\<rparr>"
  have bp: "busy ?bp" "valid ?bp" "\<not> dirty ?bp"
    using f(3) by (simp_all add: flag_bits bit_simps flag_consts)
  have bsy: "busy ((bufs s b)\<lparr>flags := flags (bufs s b) OR B_DIRTY\<rparr>)" using f(3) by simp
  have dr: "dirty ((bufs s b)\<lparr>flags := flags (bufs s b) OR B_DIRTY\<rparr>)" by simp
  have nd: "flags (bufs s b) OR B_DIRTY = flags ((bufs s b)\<lparr>flags := flags (bufs s b) OR B_DIRTY\<rparr>)" by simp
  have "bwrite b s = Ok () ?t"
    using f assms(3) bsy dr nothing_to_do [of "(bufs s b)\<lparr>flags := flags (bufs s b) OR B_DIRTY\<rparr>"]
    by (simp add: bwrite_def iderw_def kop_simps busy_def dirty_def not_le [symmetric] upd_buf_def)
  note e = this
  have bp': "dev ?bp = 1" "sector ?bp = n" "bnext ?bp = bnext (bufs s b)" "bprev ?bp = bprev (bufs s b)"
    "data ?bp = blk s n" using f(4,5,7) by simp_all
  note v = held_upd_buf [OF ok h bp'(1,2) bp(1,2) bp'(3,4)]
  have hu: "held ?u b = Some n" using v(2) h by simp
  note d = disk_view [OF v(1) hu, where x = "blk s n" and w = ?w]
  have fr: "bframe s ?t"
    unfolding bframe_def by (intro exI [of _ False] exI [of _ "bufs ?u"] exI [of _ "memdisk ?t"]
        exI [of _ ?w] exI [of _ "ptable s"]) simp
  show thesis
  proof (rule that [OF e fr d(1)])
    show "held ?t = held s" using d(2) v(2) by simp
    show "blk ?t = blk s" using d(3) v(3) bp'(5) by simp
    show "pinned ?t = pinned s - {n}" using d(4) v(4) bp(3) by simp
    show "spare ?t = spare s" using d(5) v(5) by simp
  qed simp_all
qed

lemma ring_upd_buf:
  assumes "\<And>bp. bnext (f bp) = bnext bp" and "\<And>bp. bprev (f bp) = bprev bp"
  shows "ring (upd_buf b f s) xs = ring s xs"
  by (rule ring_cong) (auto simp: nx_def pv_def assms)

lemma brelse_eq:
  assumes "busy (bufs s b)" and "idle BcacheLock s" and "idle PtableLock s" and "cli_wf s"
  shows "brelse b s = Ok () (settled ((upd_buf b (\<lambda>bp. bp\<lparr>flags := flags bp AND NOT B_BUSY\<rparr>)
    (bpush b (bunlink b s)))\<lparr>ptable := map (wake (Some (ChBuf b))) (ptable s)\<rparr>))"
  using assms by (simp add: brelse_def kop_simps busy_def wakeup_eq)

lemma brelse_view:
  assumes ok: "bcache_ok s" and h: "held s b = Some n" and "n \<in> pinned s \<or> blk s n = memdisk s n"
  obtains t where "brelse b s = Ok () t" and "bframe s t" and "bcache_ok t" and "held t = (held s)(b := None)"
    and "blk t = blk s" and "pinned t = pinned s" and "memdisk t = memdisk s" and "dwrites t = dwrites s"
    and "spare t = spare s + (if n \<in> pinned s then 0 else 1)"
proof -
  note f = bcache_okD(1-6,8,9) [OF ok h]
  from ok obtain xs where rdy: "bc_ready s xs" and all: "\<forall>b < NBUF. busy (bufs s b) \<longrightarrow> dev (bufs s b) = 1"
    unfolding bcache_ok_def by blast
  from rdy have wf: "bc_wf s xs" and lk: "idle BcacheLock s" "idle PtableLock s" "cli_wf s"
    by (simp_all add: bc_ready_def)
  from f(1) ring_set [OF bc_wfD(1) [OF wf]] obtain ys zs where xs: "xs = ys @ b # zs"
    by (metis split_list)
  let ?u = "bpush b (bunlink b s)"
  let ?bp = "(bufs ?u b)\<lparr>flags := flags (bufs ?u b) AND NOT B_BUSY\<rparr>"
  let ?v = "?u\<lparr>bufs := (bufs ?u)(b := ?bp)\<rparr>"
  let ?t = "settled (?v\<lparr>ptable := map (wake (Some (ChBuf b))) (ptable ?v)\<rparr>)"
  have wu: "bc_wf ?u (b # ys @ zs)"
    by (rule bc_wf_links [OF wf ring_move_front]) (use bc_wfD(1) [OF wf] xs in simp_all)
  have vu: "held ?u = held s" "pinned ?u = pinned s" "spare ?u = spare s" "blk ?u = blk s"
    by (rule view_links; simp)+
  have bp: "dev ?bp = 1" "sector ?bp = n" "valid ?bp" "\<not> busy ?bp" "dirty ?bp \<longleftrightarrow> n \<in> pinned s" "data ?bp = blk s n"
    "bnext ?bp = bnext (bufs ?u b)" "bprev ?bp = bprev (bufs ?u b)"
    using f(4-8) by (simp_all add: flag_bits bit_simps flag_consts)
  have hu: "holds ?u = holds s" by (simp add: holds_def fun_eq_iff)
  have u: "\<forall>c < NBUF. holds ?u (sector ?bp) c \<longrightarrow> c = b"
    unfolding hu bp(2) using bcache_okD(7) [OF ok h] by blast
  have wv: "bc_wf ?v (b # ys @ zs)"
    by (rule bc_wf_upd [OF wu bp(7,8) f(1) bp(1,3) u]) (use assms(3) bp in simp)
  have e: "brelse b s = Ok () ?t"
    using brelse_eq [OF f(3) lk] by (simp add: upd_buf_def)
  have hv: "held ?v = (held s)(b := None)" using held_upd [OF f(1), of ?u ?bp] bp(4) vu(1) by simp
  have hb: "m = sector ?bp" if "holds ?u m b" for m using that f(4) unfolding hu bp(2) by (simp add: holds_def)
  have pv: "pinned ?v = (if dirty ?bp then insert (sector ?bp) (pinned ?u) else pinned ?u - {sector ?bp})"
    by (rule pinned_upd [OF f(1) bp(1)]) (use hb u in blast)+
  have pv': "pinned ?v = pinned s" using pv bp(5) unfolding vu bp(2) by (cases "n \<in> pinned s") auto
  have bv: "blk ?v = (blk ?u)(sector ?bp := data ?bp)"
    by (rule blk_upd [OF wu f(1) bp(1) u]) (use hb in blast)
  have bv': "blk ?v = blk s" using bv unfolding vu bp(2,6) by simp
  have bu: "busy (bufs ?u b)" using f(3) by (simp add: busy_def)
  have sv: "spare ?v = spare s + (if n \<in> pinned s then 0 else 1)"
    using spare_upd [OF f(1), of ?u ?bp] bp(4,5) bu unfolding vu by simp
  have "bc_ready ?v (b # ys @ zs)" using wv lk by (simp add: bc_ready_def)
  moreover have "\<forall>c < NBUF. busy (bufs ?v c) \<longrightarrow> dev (bufs ?v c) = 1" using all bp(1) by (simp add: busy_def)
  ultimately have ov: "bcache_ok ?v" unfolding bcache_ok_def by blast
  have fr: "bframe s ?t"
    by (rule bframeI [where P = "map (wake (Some (ChBuf b))) (ptable s)" and B = "bufs ?v" and M = "memdisk s"
          and W = "dwrites s"]) (simp_all add: woken_wake links_frame bufs_ptable_swap)
  show thesis by (rule that [OF e fr]) (simp_all only: view_settled view_ptable ov hv bv' pv' sv, simp_all)
qed


section \<open>The interface of a block store\<close>

text \<open>
  What the log and the file system rely on.  \<open>rd\<close>, \<open>wr\<close> and \<open>rel\<close> read a block into a held buffer, write a
  held buffer to disk and give it back; \<open>put\<close> and \<open>get\<close> access the bytes of a held buffer.
\<close>

locale block_store =
  fixes rd :: "uint \<Rightarrow> ('s, nat) kop" and wr :: "nat \<Rightarrow> ('s, unit) kop" and rel :: "nat \<Rightarrow> ('s, unit) kop"
    and put :: "nat \<Rightarrow> uchar list \<Rightarrow> 's \<Rightarrow> 's" and get :: "nat \<Rightarrow> 's \<Rightarrow> uchar list"
    and inv :: "'s \<Rightarrow> bool" and frame :: "'s \<Rightarrow> 's \<Rightarrow> bool" and cap :: "'s \<Rightarrow> uint"
    and content :: "'s \<Rightarrow> uint \<Rightarrow> uchar list" and disk :: "'s \<Rightarrow> uint \<Rightarrow> uchar list"
    and hold :: "'s \<Rightarrow> nat \<Rightarrow> uint option" and pins :: "'s \<Rightarrow> uint set" and room :: "'s \<Rightarrow> nat"
    and writes :: "'s \<Rightarrow> (uint \<times> uchar list) list"
  assumes frame_refl: "frame s s"
    and frame_trans: "frame s t \<Longrightarrow> frame t u \<Longrightarrow> frame s u"
    and frame_cap: "frame s t \<Longrightarrow> cap t = cap s"
    and rd_law: "inv s \<Longrightarrow> n < cap s \<Longrightarrow> n \<notin> ran (hold s) \<Longrightarrow> n \<in> pins s \<or> 0 < room s \<Longrightarrow>
      \<exists>b t. rd n s = Ok b t \<and> frame s t \<and> inv t \<and> hold s b = None \<and> hold t = (hold s)(b \<mapsto> n) \<and>
        content t = content s \<and> pins t = pins s \<and> disk t = disk s \<and> writes t = writes s \<and>
        room t = room s - (if n \<in> pins s then 0 else 1)"
    and clean_law: "inv s \<Longrightarrow> n \<notin> pins s \<Longrightarrow> n \<notin> ran (hold s) \<Longrightarrow> content s n = disk s n"
    and get_law: "inv s \<Longrightarrow> hold s b = Some n \<Longrightarrow> get b s = content s n"
    and put_law: "inv s \<Longrightarrow> hold s b = Some n \<Longrightarrow> frame s (put b x s) \<and> inv (put b x s) \<and>
        hold (put b x s) = hold s \<and> content (put b x s) = (content s)(n := x) \<and> pins (put b x s) = pins s \<and>
        disk (put b x s) = disk s \<and> writes (put b x s) = writes s \<and> room (put b x s) = room s"
    and wr_law: "inv s \<Longrightarrow> hold s b = Some n \<Longrightarrow> n < cap s \<Longrightarrow>
      \<exists>t. wr b s = Ok () t \<and> frame s t \<and> inv t \<and> hold t = hold s \<and> content t = content s \<and>
        pins t = pins s - {n} \<and> disk t = (disk s)(n := content s n) \<and>
        writes t = writes s @ [(n, content s n)] \<and> room t = room s"
    and rel_law: "inv s \<Longrightarrow> hold s b = Some n \<Longrightarrow> n \<in> pins s \<or> content s n = disk s n \<Longrightarrow>
      \<exists>t. rel b s = Ok () t \<and> frame s t \<and> inv t \<and> hold t = (hold s)(b := None) \<and> content t = content s \<and>
        pins t = pins s \<and> disk t = disk s \<and> writes t = writes s \<and>
        room t = room s + (if n \<in> pins s then 0 else 1)"
begin

text \<open>Reading a value out of a block changes nothing.\<close>

lemma peek_block:
  assumes "inv s" and "n < cap s" and "n \<notin> ran (hold s)" and "n \<in> pins s \<or> 0 < room s"
  obtains t where "bnd (rd n) (\<lambda>b. bnd (gets (\<lambda>s. f (get b s))) (\<lambda>v. seq (rel b) (ret v))) s = Ok (f (content s n)) t"
    and "frame s t" and "inv t" and "hold t = hold s" and "content t = content s" and "pins t = pins s"
    and "disk t = disk s" and "writes t = writes s" and "room t = room s"
proof -
  from rd_law [OF assms(1-4)] obtain b u where u: "rd n s = Ok b u" "frame s u" "inv u" "hold s b = None"
    "hold u = (hold s)(b \<mapsto> n)" "content u = content s" "pins u = pins s" "disk u = disk s"
    "writes u = writes s" "room u = room s - (if n \<in> pins s then 0 else 1)" by blast
  have h: "hold u b = Some n" using u(5) by simp
  have "n \<in> pins s \<or> content s n = disk s n" using clean_law [OF assms(1) _ assms(3)] by blast
  with rel_law [OF u(3) h] u obtain t where t: "rel b u = Ok () t" "frame u t" "inv t"
    "hold t = (hold u)(b := None)" "content t = content u" "pins t = pins u" "disk t = disk u"
    "writes t = writes u" "room t = room u + (if n \<in> pins u then 0 else 1)" by auto
  show thesis
  proof (rule that)
    show "bnd (rd n) (\<lambda>b. bnd (gets (\<lambda>s. f (get b s))) (\<lambda>v. seq (rel b) (ret v))) s = Ok (f (content s n)) t"
      using u(1) t(1) get_law [OF u(3) h] u(6) by (simp add: kop_simps)
    show "frame s t" using frame_trans [OF u(2) t(2)] .
    show "hold t = hold s" using t(4) u(4,5) by (auto simp: fun_eq_iff)
    show "room t = room s" using t(9) u(7,10) assms(4) by auto
  qed (use t u in simp_all)
qed

text \<open>Read a block, compute its new content, write it out, release it.\<close>

lemma poke_block:
  assumes "inv s" and "n < cap s" and "n \<notin> ran (hold s)" and "n \<in> pins s \<or> 0 < room s"
  obtains t where "bnd (rd n) (\<lambda>b. seq (modify (\<lambda>s. put b (g (get b s)) s)) (seq (wr b) (rel b))) s = Ok () t"
    and "frame s t" and "inv t" and "hold t = hold s" and "content t = (content s)(n := g (content s n))"
    and "pins t = pins s - {n}" and "disk t = (disk s)(n := g (content s n))"
    and "writes t = writes s @ [(n, g (content s n))]" and "room s \<le> room t"
proof -
  from rd_law [OF assms] obtain b u where u: "rd n s = Ok b u" "frame s u" "inv u" "hold s b = None"
    "hold u = (hold s)(b \<mapsto> n)" "content u = content s" "pins u = pins s" "disk u = disk s"
    "writes u = writes s" "room u = room s - (if n \<in> pins s then 0 else 1)" by blast
  have h: "hold u b = Some n" using u(5) by simp
  let ?v = "put b (g (content s n)) u"
  note p = put_law [OF u(3) h, of "g (content s n)"]
  have hv: "hold ?v b = Some n" "inv ?v" "n < cap ?v"
    using p h assms(2) frame_cap [OF u(2)] frame_cap [of u ?v] by simp_all
  from wr_law [OF hv(2,1,3)] obtain w where w: "wr b ?v = Ok () w" "frame ?v w" "inv w" "hold w = hold ?v"
    "content w = content ?v" "pins w = pins ?v - {n}" "disk w = (disk ?v)(n := content ?v n)"
    "writes w = writes ?v @ [(n, content ?v n)]" "room w = room ?v" by blast
  have hw: "hold w b = Some n" using w(4) hv by simp
  from rel_law [OF w(3) hw] w obtain t where t: "rel b w = Ok () t" "frame w t" "inv t"
    "hold t = (hold w)(b := None)" "content t = content w" "pins t = pins w" "disk t = disk w"
    "writes t = writes w" "room t = room w + (if n \<in> pins w then 0 else 1)" by auto
  show thesis
  proof (rule that)
    show "bnd (rd n) (\<lambda>b. seq (modify (\<lambda>s. put b (g (get b s)) s)) (seq (wr b) (rel b))) s = Ok () t"
      using u(1) t(1) w(1) get_law [OF u(3) h] u(6) by (simp add: kop_simps)
    show "frame s t" using frame_trans [OF u(2)] frame_trans [OF _ w(2)] frame_trans [OF _ t(2)] p by blast
    show "hold t = hold s" using t(4) w(4) p u(4,5) by (auto simp: fun_eq_iff)
    show "room s \<le> room t" using t(9) w(6,9) p u(7,10) by auto
  qed (use t w p u in simp_all)
qed

text \<open>Copy one block over another through two held buffers, as \<open>install_trans\<close> does.\<close>

lemma copy_block:
  assumes "inv s" and "l < cap s" and "n < cap s" and "l \<notin> ran (hold s)" and "n \<notin> ran (hold s)" and "l \<noteq> n"
    and "l \<notin> pins s" and "2 \<le> room s"
  obtains t where "bnd (rd l) (\<lambda>lb. bnd (rd n) (\<lambda>b. seq (modify (\<lambda>s. put b (get lb s) s))
      (seq (wr b) (seq (rel lb) (rel b))))) s = Ok () t"
    and "frame s t" and "inv t" and "hold t = hold s" and "content t = (content s)(n := content s l)"
    and "pins t = pins s - {n}" and "disk t = (disk s)(n := content s l)"
    and "writes t = writes s @ [(n, content s l)]" and "room s \<le> room t"
proof -
  have cl: "content s l = disk s l" using clean_law assms by blast
  from rd_law [OF assms(1,2,4)] assms(7,8) obtain lb u where u: "rd l s = Ok lb u" "frame s u" "inv u" "hold s lb = None"
    "hold u = (hold s)(lb \<mapsto> l)" "content u = content s" "pins u = pins s" "disk u = disk s"
    "writes u = writes s" "room u = room s - 1" by auto
  have nu: "n < cap u" "n \<notin> ran (hold u)" "0 < room u" "hold u lb = Some l"
    using assms frame_cap [OF u(2)] u(4,5,10) by auto
  from rd_law [OF u(3) nu(1,2) disjI2 [OF nu(3)]] obtain b v where v: "rd n u = Ok b v" "frame u v" "inv v" "hold u b = None"
    "hold v = (hold u)(b \<mapsto> n)" "content v = content u" "pins v = pins u" "disk v = disk u"
    "writes v = writes u" "room v = room u - (if n \<in> pins u then 0 else 1)" by blast
  have ne: "b \<noteq> lb" using v(4) nu(4) by auto
  have hv: "hold v b = Some n" "hold v lb = Some l" using v(5) nu(4) ne by simp_all
  let ?p = "put b (content s l) v"
  note p = put_law [OF v(3) hv(1), of "content s l"]
  have hp: "hold ?p b = Some n" "hold ?p lb = Some l" "inv ?p" "n < cap ?p"
    using p hv nu(1) frame_cap [OF v(2)] frame_cap [of v ?p] by simp_all
  from wr_law [OF hp(3,1,4)] obtain w where w: "wr b ?p = Ok () w" "frame ?p w" "inv w" "hold w = hold ?p"
    "content w = content ?p" "pins w = pins ?p - {n}" "disk w = (disk ?p)(n := content ?p n)"
    "writes w = writes ?p @ [(n, content ?p n)]" "room w = room ?p" by blast
  have hw: "hold w lb = Some l" "hold w b = Some n" using w(4) hp by simp_all
  have "content w l = disk w l" using w p v u cl assms(6) by simp
  with rel_law [OF w(3) hw(1)] obtain x where x: "rel lb w = Ok () x" "frame w x" "inv x"
    "hold x = (hold w)(lb := None)" "content x = content w" "pins x = pins w" "disk x = disk w"
    "writes x = writes w" "room x = room w + (if l \<in> pins w then 0 else 1)" by blast
  have hx: "hold x b = Some n" using x(4) hw ne by simp
  have "content x n = disk x n" using x w by simp
  with rel_law [OF x(3) hx] obtain t where t: "rel b x = Ok () t" "frame x t" "inv t"
    "hold t = (hold x)(b := None)" "content t = content x" "pins t = pins x" "disk t = disk x"
    "writes t = writes x" "room t = room x + (if n \<in> pins x then 0 else 1)" by blast
  show thesis
  proof (rule that)
    show "bnd (rd l) (\<lambda>lb. bnd (rd n) (\<lambda>b. seq (modify (\<lambda>s. put b (get lb s) s))
        (seq (wr b) (seq (rel lb) (rel b))))) s = Ok () t"
      using u(1) v(1,6) t(1) w(1) x(1) get_law [OF v(3) hv(2)] u(6) by (simp add: kop_simps)
    show "frame s t" using frame_trans [OF u(2)] frame_trans [OF v(2)] p frame_trans [OF _ w(2)]
        frame_trans [OF _ x(2)] frame_trans [OF _ t(2)] by blast
    have "hold t = (((hold s)(lb \<mapsto> l, b \<mapsto> n))(lb := None))(b := None)" using t(4) x(4) w(4) p v(5) u(5) by simp
    also have "\<dots> = hold s" using u(4,5) v(4) ne by (auto simp: fun_eq_iff)
    finally show "hold t = hold s" .
    show "room s \<le> room t" using t(9) x(6,9) w(6,9) p v(7,10) u(7,10) assms(6,7,8) by auto
  qed (use t x w p v u in simp_all)
qed

end

interpretation bcache: block_store "bread 1" bwrite brelse "\<lambda>b x. upd_buf b (\<lambda>bp. bp\<lparr>data := x\<rparr>)"
  "\<lambda>b s. data (bufs s b)" bcache_ok bframe disksize blk memdisk held pinned spare dwrites
proof unfold_locales
  fix s :: "'e kbio_scheme" and n
  assume "bcache_ok s" "n < disksize s" "n \<notin> ran (held s)" "n \<in> pinned s \<or> 0 < spare s"
  from bread_view [OF this] show "\<exists>b t. bread 1 n s = Ok b t \<and> bframe s t \<and> bcache_ok t \<and> held s b = None \<and>
      held t = (held s)(b \<mapsto> n) \<and> blk t = blk s \<and> pinned t = pinned s \<and> memdisk t = memdisk s \<and>
      dwrites t = dwrites s \<and> spare t = spare s - (if n \<in> pinned s then 0 else 1)" by metis
next
  fix s :: "'e kbio_scheme" and n
  assume "bcache_ok s" "n \<notin> pinned s" "n \<notin> ran (held s)"
  then show "blk s n = memdisk s n" by (rule clean_blk)
next
  fix s :: "'e kbio_scheme" and b n
  assume "bcache_ok s" "held s b = Some n"
  then show "data (bufs s b) = blk s n" by (rule bcache_okD(8))
next
  fix s :: "'e kbio_scheme" and b n x
  assume "bcache_ok s" "held s b = Some n"
  from setdata_view [OF this, of x] bframe_buf [of s b]
  show "bframe s (upd_buf b (\<lambda>bp. bp\<lparr>data := x\<rparr>) s) \<and> bcache_ok (upd_buf b (\<lambda>bp. bp\<lparr>data := x\<rparr>) s) \<and>
     held (upd_buf b (\<lambda>bp. bp\<lparr>data := x\<rparr>) s) = held s \<and> blk (upd_buf b (\<lambda>bp. bp\<lparr>data := x\<rparr>) s) = (blk s)(n := x) \<and>
     pinned (upd_buf b (\<lambda>bp. bp\<lparr>data := x\<rparr>) s) = pinned s \<and> memdisk (upd_buf b (\<lambda>bp. bp\<lparr>data := x\<rparr>) s) = memdisk s \<and>
     dwrites (upd_buf b (\<lambda>bp. bp\<lparr>data := x\<rparr>) s) = dwrites s \<and> spare (upd_buf b (\<lambda>bp. bp\<lparr>data := x\<rparr>) s) = spare s"
    by simp
next
  fix s :: "'e kbio_scheme" and b n
  assume "bcache_ok s" "held s b = Some n" "n < disksize s"
  from bwrite_view [OF this] show "\<exists>t. bwrite b s = Ok () t \<and> bframe s t \<and> bcache_ok t \<and> held t = held s \<and>
     blk t = blk s \<and> pinned t = pinned s - {n} \<and> memdisk t = (memdisk s)(n := blk s n) \<and>
     dwrites t = dwrites s @ [(n, blk s n)] \<and> spare t = spare s" by metis
next
  fix s :: "'e kbio_scheme" and b n
  assume "bcache_ok s" "held s b = Some n" "n \<in> pinned s \<or> blk s n = memdisk s n"
  from brelse_view [OF this] show "\<exists>t. brelse b s = Ok () t \<and> bframe s t \<and> bcache_ok t \<and>
     held t = (held s)(b := None) \<and> blk t = blk s \<and> pinned t = pinned s \<and> memdisk t = memdisk s \<and>
     dwrites t = dwrites s \<and> spare t = spare s + (if n \<in> pinned s then 0 else 1)" by metis
qed (auto intro: bframe_trans simp: disksize_frame)


section \<open>Initialisation\<close>

text \<open>The ring after \<open>binit\<close> has linked the first \<open>k\<close> buffers.\<close>

lemma links_binit_link:
  assumes "b \<noteq> bhead"
  shows "binit_link b s = Ok () (upd_buf b (\<lambda>bp. bp\<lparr>dev := - 1\<rparr>) (bpush b s))"
proof -
  have "upd_buf bhead (\<lambda>bp. bp\<lparr>bnext := b\<rparr>) (upd_buf (bnext (bufs s bhead)) (\<lambda>bp. bp\<lparr>bprev := b\<rparr>)
      (upd_buf b (\<lambda>bp. bp\<lparr>dev := - 1\<rparr>) (upd_buf b (\<lambda>bp. bp\<lparr>bprev := bhead\<rparr>)
      (upd_buf b (\<lambda>bp. bp\<lparr>bnext := bnext (bufs s bhead)\<rparr>) s)))) =
    upd_buf b (\<lambda>bp. bp\<lparr>dev := - 1\<rparr>) (upd_buf bhead (\<lambda>bp. bp\<lparr>bnext := b\<rparr>) (upd_buf (bnext (bufs s bhead))
      (\<lambda>bp. bp\<lparr>bprev := b\<rparr>) (upd_buf b (\<lambda>bp. bp\<lparr>bprev := bhead\<rparr>)
      (upd_buf b (\<lambda>bp. bp\<lparr>bnext := bnext (bufs s bhead)\<rparr>) s))))"
    using assms by (simp add: upd_buf_def fun_eq_iff) 
  then show ?thesis using assms by (simp add: binit_link_def bpush_def Let_def kop_simps)
qed

lemma orbit_cong: "orbit f xs \<Longrightarrow> (\<And>x. x \<in> set (bhead # xs) \<Longrightarrow> g x = f x) \<Longrightarrow> orbit g xs"
  unfolding orbit_def by (metis map_eq_conv)

lemma push_orbits:
  assumes "orbit (nx s) xs" and "orbit (pv s) (rev xs)" and "b \<notin> set (bhead # xs)" and "distinct (bhead # xs)"
  shows "orbit (nx (bpush b s)) (b # xs)" and "orbit (pv (bpush b s)) (rev (b # xs))"
proof -
  have b: "b \<noteq> bhead" "bhead \<notin> set xs" "distinct (bhead # rev xs)" "b \<notin> set (bhead # rev xs)" using assms(3,4) by auto
  show "orbit (nx (bpush b s)) (b # xs)"
    unfolding links_push(1) [OF b(1)] by (rule orbit_push_front [OF assms(1,3) b(2)])
  have "nx s bhead = last (bhead # rev xs)" using orbit_first [OF assms(1)] by (simp only: last_rev_head)
  then show "orbit (pv (bpush b s)) (rev (b # xs))"
    unfolding links_push(2) [OF b(1)] using orbit_push_back [OF assms(2) b(4,3)] by simp
qed

lemma nx_dev [simp]: "nx (upd_buf b (\<lambda>bp. bp\<lparr>dev := d\<rparr>) s) = nx s" "pv (upd_buf b (\<lambda>bp. bp\<lparr>dev := d\<rparr>) s) = pv s"
  by (auto simp: nx_def pv_def)

lemma binit_links:
  assumes "orbit (nx s) []" and "orbit (pv s) []" and "k \<le> NBUF"
  shows "\<exists>t. forM [0..<k] binit_link s = Ok () t \<and> orbit (nx t) (rev [0..<k]) \<and> orbit (pv t) [0..<k]
    \<and> (\<forall>b. flags (bufs t b) = flags (bufs s b) \<and> (b < k \<longrightarrow> dev (bufs t b) = - 1)) \<and> (\<exists>B. t = s\<lparr>bufs := B\<rparr>)"
  using assms(3)
proof (induction k)
  case 0
  show ?case using assms(1,2) by (intro exI [of _ s]) (auto intro: exI [of _ "bufs s"])
next
  case (Suc k)
  then obtain t B where t: "forM [0..<k] binit_link s = Ok () t" "orbit (nx t) (rev [0..<k])" "orbit (pv t) [0..<k]"
    "\<forall>b. flags (bufs t b) = flags (bufs s b) \<and> (b < k \<longrightarrow> dev (bufs t b) = - 1)" "t = s\<lparr>bufs := B\<rparr>" by auto
  have k: "k \<noteq> bhead" "k \<notin> set (bhead # rev [0..<k])" "distinct (bhead # rev [0..<k])"
    using Suc.prems by (auto simp: bhead_def)
  let ?u = "upd_buf k (\<lambda>bp. bp\<lparr>dev := - 1\<rparr>) (bpush k t)"
  have "forM [0..<Suc k] binit_link s = Ok () ?u"
    using t(1) links_binit_link [OF k(1), of t] by (simp add: forM_snoc)
  moreover have "orbit (nx ?u) (rev [0..<Suc k])" "orbit (pv ?u) [0..<Suc k]"
    using push_orbits [OF t(2) _ k(2,3)] t(3) by simp_all
  moreover have "\<forall>b. flags (bufs ?u b) = flags (bufs s b) \<and> (b < Suc k \<longrightarrow> dev (bufs ?u b) = - 1)"
    using t(4) by (simp add: less_Suc_eq)
  moreover have "\<exists>B. ?u = s\<lparr>bufs := B\<rparr>"
    by (intro exI [of _ "bufs ?u"]) (simp add: t(5) bpush_def Let_def upd_buf_def)
  ultimately show ?case by blast
qed


section \<open>Properties of the buffer cache\<close>

lemma set_lock_simps [simp]:
  "idle lk (set_lock lk (\<lambda>l. l\<lparr>lkname := m, locked := 0, lkcpu := None\<rparr>) s)"
  "lk' \<noteq> lk \<Longrightarrow> idle lk' (set_lock lk f s) = idle lk' s" "cli_wf (set_lock lk f s) = cli_wf s"
  by (simp_all add: idle_def set_lock_def cli_wf_def mycpu_def)

lemma bufs_set_lock [simp]: "bufs (set_lock lk f s) = bufs s" "memdisk (set_lock lk f s) = memdisk s"
  by (simp_all add: set_lock_def)

lemma unused_cache:
  assumes "ring t xs" and "\<And>b. b < NBUF \<Longrightarrow> flags (bufs t b) = 0 \<and> dev (bufs t b) = - 1"
    and "idle BcacheLock t" and "idle PtableLock t" and "cli_wf t"
  shows "bcache_ok t" and "spare t = NBUF" and "held t = Map.empty" and "pinned t = {}" and "blk t = memdisk t"
proof -
  have f: "\<not> busy (bufs t b)" "\<not> dirty (bufs t b)" "dev (bufs t b) \<noteq> 1" if "b < NBUF" for b
    using assms(2) [OF that] by (simp_all add: busy_def dirty_def)
  have "bc_wf t xs" using assms(1) f(3) by (auto simp: bc_wf_def)
  then show "bcache_ok t" using assms(3-5) f(1) by (auto simp: bcache_ok_def bc_ready_def)
  have "spares t = {b. b < NBUF}" using f by (auto simp: spares_def)
  then show "spare t = NBUF" by (simp add: spare_def)
  show "held t = Map.empty" "pinned t = {}" using f by (auto simp: held_def pinned_def fun_eq_iff)
  show "blk t = memdisk t" using f(3) by (intro ext blk_uncached) (simp add: holds_def)
qed

text \<open>
  C5 (start of the cache). On zeroed static data \<open>binit\<close> links all \<open>NBUF\<close> buffers into the
  ring and establishes the invariant of the cache: no buffer is in use, every buffer can be recycled, and
  every block reads as it is on the disk.
\<close>

theorem binit_establishes:
  assumes "\<forall>b. flags (bufs s b) = 0" and "idle PtableLock s" and "cli_wf s"
  shows "\<exists>t. binit s = Ok () t \<and> ring t (rev [0..<NBUF]) \<and> bcache_ok t \<and> spare t = NBUF
    \<and> held t = Map.empty \<and> pinned t = {} \<and> blk t = memdisk s"
proof -
  let ?s = "upd_buf bhead (\<lambda>bp. bp\<lparr>bnext := bhead\<rparr>) (upd_buf bhead (\<lambda>bp. bp\<lparr>bprev := bhead\<rparr>)
     (set_lock BcacheLock (\<lambda>l. l\<lparr>lkname := ''bcache'', locked := 0, lkcpu := None\<rparr>) s))"
  have "orbit (nx ?s) []" "orbit (pv ?s) []" by (simp_all add: orbit_def nx_def pv_def)
  from binit_links [OF this order_refl] obtain t B where t: "forM [0..<NBUF] binit_link ?s = Ok () t"
    "orbit (nx t) (rev [0..<NBUF])" "orbit (pv t) [0..<NBUF]" "t = ?s\<lparr>bufs := B\<rparr>"
    "\<forall>b. flags (bufs t b) = flags (bufs ?s b) \<and> (b < NBUF \<longrightarrow> dev (bufs t b) = - 1)" by blast
  have "binit s = Ok () t" using t(1) by (simp add: binit_def initlock_def kop_simps)
  moreover have r: "ring t (rev [0..<NBUF])" using t(2,3) unfolding ring_def by (auto simp: bhead_def)
  moreover have "memdisk t = memdisk s" by (simp add: t(4))
  moreover have "flags (bufs t b) = 0 \<and> dev (bufs t b) = - 1" if "b < NBUF" for b
    using t(5) that assms(1) by simp
  note unused_cache [OF r this]
  moreover have "idle BcacheLock t" "idle PtableLock t" "cli_wf t" using assms(2,3) by (simp_all add: t(4))
  ultimately show ?thesis by simp
qed

text \<open>
  C3 (the cache keeps least recently used order). \<open>brelse\<close> moves the buffer to the front of the ring and keeps
  the order of the others; \<open>bget\<close> for a block that is not cached recycles the last buffer of the ring
  that is neither busy nor dirty, and panics when there is none.
\<close>

theorem bcache_lru:
  assumes "ring s xs" and "b \<in> set xs" and "busy (bufs s b)"
    and "idle BcacheLock s" and "idle PtableLock s" and "cli_wf s"
  shows "(\<exists>t. brelse b s = Ok () t \<and> ring t (b # remove1 b xs) \<and> \<not> busy (bufs t b)) \<and>
    ((\<forall>c < NBUF. \<not> (dev (bufs s c) = d \<and> sector (bufs s c) = n)) \<longrightarrow>
      (case find (\<lambda>c. \<not> busy (bufs s c) \<and> \<not> dirty (bufs s c)) (rev xs) of
         Some c \<Rightarrow> \<exists>t. bget d n s = Ok c t \<and> ring t xs
       | None \<Rightarrow> bget d n s = Stop (Panic ''bget: no buffers'')))"
proof (intro conjI impI)
  from assms(1,2) obtain ys zs where xs: "xs = ys @ b # zs" and b: "b \<notin> set ys"
    by (metis split_list_first)
  let ?t = "settled ((upd_buf b (\<lambda>bp. bp\<lparr>flags := flags bp AND NOT B_BUSY\<rparr>)
    (bpush b (bunlink b s)))\<lparr>ptable := map (wake (Some (ChBuf b))) (ptable s)\<rparr>)"
  have "ring (bpush b (bunlink b s)) (b # ys @ zs)" using ring_move_front assms(1) xs by blast
  then have "ring (upd_buf b (\<lambda>bp. bp\<lparr>flags := flags bp AND NOT B_BUSY\<rparr>) (bpush b (bunlink b s))) (b # ys @ zs)"
    by (simp add: ring_upd_buf)
  then have "ring ?t (b # remove1 b xs)" using b xs by (simp add: remove1_append)
  then show "\<exists>t. brelse b s = Ok () t \<and> ring t (b # remove1 b xs) \<and> \<not> busy (bufs t b)"
    using brelse_eq [OF assms(3-6)] by (intro exI [of _ ?t]) simp
next
  assume nc: "\<forall>c < NBUF. \<not> (dev (bufs s c) = d \<and> sector (bufs s c) = n)"
  let ?s = "taken BcacheLock s"
  have r: "ring ?s xs" using assms(1) by simp
  have "find (\<lambda>b. dev (bufs s b) = d \<and> sector (bufs s b) = n) xs = None"
    using nc ring_set [OF assms(1)] by (simp add: find_None_iff)
  note f = this
  have v: "(\<lambda>c. flags (bufs s c) AND B_BUSY = 0 \<and> flags (bufs s c) AND B_DIRTY = 0) =
      (\<lambda>c. \<not> busy (bufs s c) \<and> \<not> dirty (bufs s c))" by (simp add: busy_def dirty_def)
  have "bget d n s = (case find (\<lambda>c. \<not> busy (bufs s c) \<and> \<not> dirty (bufs s c)) (rev xs) of
      Some c \<Rightarrow> Ok c (settled (upd_buf c (\<lambda>bp. bp\<lparr>dev := d, sector := n, flags := B_BUSY\<rparr>) s))
    | None \<Rightarrow> Stop (Panic ''bget: no buffers''))"
    using assms(4,6) f by (simp add: bget_def bget_loop_def ring_bget [OF r] kop_simps v split: option.split)
  moreover have "ring (settled (upd_buf c (\<lambda>bp. bp\<lparr>dev := d, sector := n, flags := B_BUSY\<rparr>) s)) xs" for c
    using assms(1) by (simp add: ring_upd_buf)
  ultimately show "case find (\<lambda>c. \<not> busy (bufs s c) \<and> \<not> dirty (bufs s c)) (rev xs) of
         Some c \<Rightarrow> \<exists>t. bget d n s = Ok c t \<and> ring t xs
       | None \<Rightarrow> bget d n s = Stop (Panic ''bget: no buffers'')" by (simp split: option.split)
qed

text \<open>
  C4 (bread). For a block of the disk that no process uses, with a buffer to recycle unless the block is pinned,
  \<open>bread\<close> returns a buffer marked busy that holds the content of the block, the only buffer of that
  block; the content of every block stays what it was, and so does the disk.
\<close>

theorem bread_spec:
  assumes "bcache_ok s" and "n < disksize s" and "n \<notin> ran (held s)" and "n \<in> pinned s \<or> 0 < spare s"
  shows "\<exists>b t. bread 1 n s = Ok b t \<and> b < NBUF \<and> busy (bufs t b) \<and> holds t n b \<and> data (bufs t b) = blk s n
    \<and> (\<forall>c < NBUF. holds t n c \<longrightarrow> c = b) \<and> blk t = blk s \<and> memdisk t = memdisk s \<and> bcache_ok t"
proof -
  obtain b t where t: "bread 1 n s = Ok b t" "bcache_ok t" "held t = (held s)(b \<mapsto> n)"
    "blk t = blk s" "memdisk t = memdisk s" by (rule bread_view [OF assms])
  then have "held t b = Some n" by simp
  note f = bcache_okD [OF t(2) this]
  have u: "\<forall>c < NBUF. holds t n c \<longrightarrow> c = b" using f(7) by blast
  show ?thesis by (intro exI [of _ b] exI [of _ t] conjI t(1,2,4,5) f(1-3) u) (simp add: f(8) t(4))
qed

section \<open>A concrete cache\<close>

definition ex_bio_ext :: "'e \<Rightarrow> 'e kbio_scheme" where
  "ex_bio_ext r = \<lparr>me = 0, cpus = cpus quiet_core, locks = locks quiet_core,
     mem = (\<lambda>_. 0), use_lock = True, freelist = 0x80400000, kend = 0x80200000,
     kpgdir = 0x80302000, kdata = 0x80108000,
     ptable = ex_proc # replicate (NPROC - 1) unused_proc, initproc = Some 0, nextpid = 2,
     bufs = (\<lambda>b. \<lparr>flags = 0, dev = - 1, sector = 0, bprev = (if b = 0 then NBUF else b - 1),
                  bnext = (if b = NBUF then 0 else b + 1), qnext = None, data = replicate BSIZE 0\<rparr>),
     memdisk = (\<lambda>_. replicate BSIZE 0), disksize = 1024, dwrites = [], \<dots> = r\<rparr>"

lemma ex_bio_ring: "ring (ex_bio_ext r) [0..<NBUF]"
  by (simp add: ring_def orbit_def nx_def pv_def ex_bio_ext_def bhead_def NBUF_def upt_rec) auto

lemma ex_bio_simps [simp]:
  "idle lk (ex_bio_ext r)" "cli_wf (ex_bio_ext r)" "disksize (ex_bio_ext r) = 1024"
  "memdisk (ex_bio_ext r) = (\<lambda>_. replicate BSIZE 0)" "dwrites (ex_bio_ext r) = []"
  by (simp_all add: ex_bio_ext_def idle_def cli_wf_def mycpu_def quiet_core_def)

lemma ex_bio_cache [simp]:
  "bcache_ok (ex_bio_ext r)" "spare (ex_bio_ext r) = NBUF" "held (ex_bio_ext r) = Map.empty" "pinned (ex_bio_ext r) = {}"
  "blk (ex_bio_ext r) = (\<lambda>_. replicate BSIZE 0)"
proof -
  have "flags (bufs (ex_bio_ext r) b) = 0 \<and> dev (bufs (ex_bio_ext r) b) = - 1" for b by (simp add: ex_bio_ext_def)
  from unused_cache [OF ex_bio_ring this]
  show "bcache_ok (ex_bio_ext r)" "spare (ex_bio_ext r) = NBUF" "held (ex_bio_ext r) = Map.empty"
    "pinned (ex_bio_ext r) = {}" "blk (ex_bio_ext r) = (\<lambda>_. replicate BSIZE 0)" by simp_all
qed

theorem bread_spec_witness:
  "\<exists>b t. bread 1 7 (ex_bio_ext ()) = Ok b t \<and> data (bufs t b) = replicate BSIZE 0 \<and> busy (bufs t b)"
  using bread_spec [of "ex_bio_ext ()" 7] by (auto simp: NBUF_def)

theorem binit_establishes_witness: "\<exists>t. binit (ex_bio_ext ()) = Ok () t \<and> bcache_ok t"
  using binit_establishes [of "ex_bio_ext ()"] by (auto simp: ex_bio_ext_def idle_def cli_wf_def mycpu_def quiet_core_def)

theorem bcache_lru_witness:
  "\<exists>t. brelse 4 (upd_buf 4 (\<lambda>bp. bp\<lparr>flags := B_BUSY\<rparr>) (ex_bio_ext ())) = Ok () t \<and> ring t [4, 0, 1, 2, 3, 5, 6, 7, 8, 9]"
proof -
  let ?s = "upd_buf 4 (\<lambda>bp. bp\<lparr>flags := B_BUSY\<rparr>) (ex_bio_ext ())"
  have "ring ?s [0..<NBUF]" using ex_bio_ring [of "()"] by (simp add: ring_upd_buf)
  note l = bcache_lru [OF this, of 4, THEN conjunct1]
  have e: "4 # remove1 4 [0..<NBUF] = [4, 0, 1, 2, 3, 5, 6, 7, 8, 9]" by code_simp
  show ?thesis using l unfolding e by (auto simp: NBUF_def)
qed

end
