(* ===== verification/Encode.thy ===== *)
theory Encode
  imports Cstring
begin

unbundle bit_operations_syntax

text \<open>
  The contents of a disk block as a list of bytes: little-endian numbers at a byte offset, as the
  compiled code reads and writes the fields of the on-disk structures of fs.h and log.c, and
  copies into a block.
\<close>

definition rd16 :: "uchar list \<Rightarrow> nat \<Rightarrow> ushort" where
  "rd16 xs i = ucast (xs ! i) OR push_bit 8 (ucast (xs ! (i + 1)))"

definition rd32 :: "uchar list \<Rightarrow> nat \<Rightarrow> uint" where
  "rd32 xs i = ucast (xs ! i) OR push_bit 8 (ucast (xs ! (i + 1)))
     OR push_bit 16 (ucast (xs ! (i + 2))) OR push_bit 24 (ucast (xs ! (i + 3)))"

definition wr16 :: "nat \<Rightarrow> ushort \<Rightarrow> uchar list \<Rightarrow> uchar list" where
  "wr16 i v xs = xs[i := ucast v, i + 1 := ucast (drop_bit 8 v)]"

definition wr32 :: "nat \<Rightarrow> uint \<Rightarrow> uchar list \<Rightarrow> uchar list" where
  "wr32 i v xs = xs[i := ucast v, i + 1 := ucast (drop_bit 8 v),
     i + 2 := ucast (drop_bit 16 v), i + 3 := ucast (drop_bit 24 v)]"

text \<open>\<open>memmove\<close> of \<open>ys\<close> to offset \<open>i\<close>, and from offset \<open>i\<close>.\<close>

definition put_at :: "nat \<Rightarrow> uchar list \<Rightarrow> uchar list \<Rightarrow> uchar list" where
  "put_at i ys xs = take i xs @ ys @ drop (i + length ys) xs"

definition get_at :: "nat \<Rightarrow> nat \<Rightarrow> uchar list \<Rightarrow> uchar list" where
  "get_at i n xs = take n (drop i xs)"

lemma length_wr [simp]: "length (wr16 i v xs) = length xs" "length (wr32 i w xs) = length xs"
  by (simp_all add: wr16_def wr32_def)

lemma length_put_at [simp]: "i + length ys \<le> length xs \<Longrightarrow> length (put_at i ys xs) = length xs"
  by (simp add: put_at_def)

lemma length_get_at [simp]: "i + n \<le> length xs \<Longrightarrow> length (get_at i n xs) = n"
  by (simp add: get_at_def)

lemma nth_put_at:
  "i + length ys \<le> length xs \<Longrightarrow> k < length xs \<Longrightarrow>
   put_at i ys xs ! k = (if i \<le> k \<and> k < i + length ys then ys ! (k - i) else xs ! k)"
  by (auto simp: put_at_def nth_append)

lemma nth_get_at: "i + n \<le> length xs \<Longrightarrow> k < n \<Longrightarrow> get_at i n xs ! k = xs ! (i + k)"
  by (simp add: get_at_def)

lemma get_put_at: "i + length ys \<le> length xs \<Longrightarrow> get_at i (length ys) (put_at i ys xs) = ys"
  by (simp add: get_at_def put_at_def)

lemma rd16_wr16_same [simp]: "i + 1 < length xs \<Longrightarrow> rd16 (wr16 i v xs) i = v"
proof -
  assume "i + 1 < length xs"
  moreover have "ucast (ucast v :: uchar) OR push_bit 8 (ucast (ucast (drop_bit 8 v) :: uchar)) = v"
    by (rule bit_word_eqI) (auto simp: bit_simps)
  ultimately show ?thesis by (simp add: rd16_def wr16_def)
qed

lemma rd16_wr16_other [simp]: "j + 1 < i \<or> i + 1 < j \<Longrightarrow> rd16 (wr16 i v xs) j = rd16 xs j"
  by (auto simp: rd16_def wr16_def)

lemma word32_of_bytes:
  "ucast (ucast v :: uchar) OR push_bit 8 (ucast (ucast (drop_bit 8 v) :: uchar))
     OR push_bit 16 (ucast (ucast (drop_bit 16 v) :: uchar))
     OR push_bit 24 (ucast (ucast (drop_bit 24 v) :: uchar)) = (v :: uint)"
proof (rule bit_word_eqI)
  fix n
  assume n: "n < LENGTH(32)"
  show "bit (ucast (ucast v :: uchar) OR push_bit 8 (ucast (ucast (drop_bit 8 v) :: uchar))
     OR push_bit 16 (ucast (ucast (drop_bit 16 v) :: uchar))
     OR push_bit 24 (ucast (ucast (drop_bit 24 v) :: uchar)) :: uint) n \<longleftrightarrow> bit v n"
    using n by (cases "n < 8"; cases "n < 16"; cases "n < 24") (auto simp: bit_simps)
qed

lemma rd32_wr32_same [simp]: "i + 3 < length xs \<Longrightarrow> rd32 (wr32 i v xs) i = v"
  using word32_of_bytes [of v] by (simp add: rd32_def wr32_def)

lemma rd32_wr32_other [simp]: "j + 3 < i \<or> i + 3 < j \<Longrightarrow> rd32 (wr32 i v xs) j = rd32 xs j"
  by (auto simp: rd32_def wr32_def)

lemma rd16_wr32_other [simp]: "j + 1 < i \<or> i + 3 < j \<Longrightarrow> rd16 (wr32 i v xs) j = rd16 xs j"
  by (auto simp: rd16_def wr32_def)

lemma rd32_wr16_other [simp]: "j + 3 < i \<or> i + 1 < j \<Longrightarrow> rd32 (wr16 i w xs) j = rd32 xs j"
  by (auto simp: rd32_def wr16_def)

end
