(* ===== verification/Log.thy ===== *)
theory Log
  imports Bcache Encode
begin

unbundle bit_operations_syntax

text \<open>
  log.c: the redo log that makes the writes of a system call atomic, and \<open>readsb\<close> of fs.c, which
  it uses.  The log occupies \<open>lsize\<close> blocks from \<open>lstart\<close> on: the header block, then one block for
  each logged sector.  The header on disk is a count followed by \<open>LOGSIZE\<close> sector numbers.
\<close>

section \<open>State\<close>

record superblock =
  sb_size :: uint
  sb_nblocks :: uint
  sb_ninodes :: uint
  sb_nlog :: uint

record klog = kbio +
  lstart :: uint
  lsize :: int
  lbusy :: bool
  ldev :: uint
  lh_n :: int
  lh_sector :: "nat \<Rightarrow> uint"

section \<open>Operations\<close>

definition dec_sb :: "uchar list \<Rightarrow> superblock" where
  "dec_sb xs = \<lparr>sb_size = rd32 xs 0, sb_nblocks = rd32 xs 4, sb_ninodes = rd32 xs 8, sb_nlog = rd32 xs 12\<rparr>"

definition readsb :: "uint \<Rightarrow> ('e kbio_scheme, superblock) kop" where
  "readsb d =
     bnd (bread d 1) (\<lambda>bp.
     bnd (gets (\<lambda>s. dec_sb (data (bufs s bp)))) (\<lambda>sb.
     seq (brelse bp) (ret sb)))"

definition install_trans :: "('e klog_scheme, unit) kop" where
  "install_trans =
     bnd (gets lh_n) (\<lambda>n.
     forM [0..<nat n] (\<lambda>tail.
       bnd (gets (\<lambda>s. (ldev s, lstart s + of_nat tail + 1, lh_sector s tail))) (\<lambda>(d, lb, db).
       bnd (bread d lb) (\<lambda>lbuf.
       bnd (bread d db) (\<lambda>dbuf.
       seq (modify (\<lambda>s. upd_buf dbuf (\<lambda>bp. bp\<lparr>data := data (bufs s lbuf)\<rparr>) s))
       (seq (bwrite dbuf)
       (seq (brelse lbuf)
            (brelse dbuf))))))))"

text \<open>
  \<open>read_head\<close> trusts the count on disk: a count above \<open>LOGSIZE\<close> makes the loop write past the
  end of \<open>log.lh.sector\<close>.
\<close>

definition read_head :: "('e klog_scheme, unit) kop" where
  "read_head =
     bnd (gets (\<lambda>s. (ldev s, lstart s))) (\<lambda>(d, st).
     bnd (bread d st) (\<lambda>b.
     bnd (gets (\<lambda>s. data (bufs s b))) (\<lambda>lh.
     seq (modify (\<lambda>s. s\<lparr>lh_n := sint (rd32 lh 0)\<rparr>))
     (seq (if sint (rd32 lh 0) > int LOGSIZE then fault ''read_head''
           else forM [0..<nat (sint (rd32 lh 0))] (\<lambda>i.
                  modify (\<lambda>s. s\<lparr>lh_sector := (lh_sector s)(i := rd32 lh (4 + 4 * i))\<rparr>)))
          (brelse b)))))"

definition write_head :: "('e klog_scheme, unit) kop" where
  "write_head =
     bnd (gets (\<lambda>s. (ldev s, lstart s))) (\<lambda>(d, st).
     bnd (bread d st) (\<lambda>b.
     bnd (gets lh_n) (\<lambda>n.
     seq (modify (upd_buf b (\<lambda>bp. bp\<lparr>data := wr32 0 (of_int n) (data bp)\<rparr>)))
     (seq (forM [0..<nat n] (\<lambda>i.
             modify (\<lambda>s. upd_buf b (\<lambda>bp. bp\<lparr>data := wr32 (4 + 4 * i) (lh_sector s i) (data bp)\<rparr>) s)))
     (seq (bwrite b)
          (brelse b))))))"

definition recover_from_log :: "('e klog_scheme, unit) kop" where
  "recover_from_log =
     seq read_head
     (seq install_trans
     (seq (modify (\<lambda>s. s\<lparr>lh_n := 0\<rparr>))
          write_head))"

text \<open>The header of \<open>4 + 4 * LOGSIZE\<close> bytes is smaller than a block.\<close>

definition initlog :: "('e klog_scheme, unit) kop" where
  "initlog =
     (if 4 + 4 * LOGSIZE \<ge> BSIZE then panic ''initlog: too big logheader''
      else
        seq (initlock LogLock ''log'')
        (bnd (readsb (ROOTDEV)) (\<lambda>sb.
         seq (modify (\<lambda>s. s\<lparr>lstart := sb_size sb - sb_nlog sb\<rparr>))
         (seq (modify (\<lambda>s. s\<lparr>lsize := sint (sb_nlog sb)\<rparr>))
         (seq (modify (\<lambda>s. s\<lparr>ldev := ROOTDEV\<rparr>))
              recover_from_log)))))"

definition begin_trans_loop :: "('e klog_scheme, unit) kop" where
  "begin_trans_loop =
     bnd (gets lbusy) (\<lambda>b.
     if b then sleep ChLog LogLock
     else
       seq (modify (\<lambda>s. s\<lparr>lbusy := True\<rparr>))
           (release LogLock))"

definition begin_trans_resume :: "('e klog_scheme, unit) kop" where
  "begin_trans_resume = seq (sleep_tail LogLock) begin_trans_loop"

definition begin_trans :: "('e klog_scheme, unit) kop" where
  "begin_trans = seq (acquire LogLock) begin_trans_loop"

definition commit_trans :: "('e klog_scheme, unit) kop" where
  "commit_trans =
     bnd (gets lh_n) (\<lambda>n.
     seq (if n > 0 then
            seq write_head
            (seq install_trans
            (seq (modify (\<lambda>s. s\<lparr>lh_n := 0\<rparr>))
                 write_head))
          else ret ())
     (seq (acquire LogLock)
     (seq (modify (\<lambda>s. s\<lparr>lbusy := False\<rparr>))
     (seq (wakeup ChLog)
          (release LogLock)))))"

text \<open>The index at which the search for the sector of the block stops: its slot, or the count.\<close>

definition log_slot :: "'e klog_scheme \<Rightarrow> uint \<Rightarrow> nat" where
  "log_slot s n =
     (case find (\<lambda>i. lh_sector s i = n) [0..<nat (lh_n s)] of
        Some i \<Rightarrow> i | None \<Rightarrow> nat (lh_n s))"

definition log_write :: "nat \<Rightarrow> ('e klog_scheme, unit) kop" where
  "log_write b =
     bnd (gets (\<lambda>s. (lh_n s, lsize s, lbusy s))) (\<lambda>(n, size, bsy).
     if n \<ge> int LOGSIZE \<or> n \<ge> size - 1 then panic ''too big a transaction''
     else if \<not> bsy then panic ''write outside of trans''
     else
       bnd (gets (\<lambda>s. bufs s b)) (\<lambda>bp.
       bnd (gets (\<lambda>s. log_slot s (sector bp))) (\<lambda>i.
       seq (modify (\<lambda>s. s\<lparr>lh_sector := (lh_sector s)(i := sector bp)\<rparr>))
       (bnd (gets lstart) (\<lambda>st.
        bnd (bread (dev bp) (st + of_nat i + 1)) (\<lambda>lbuf.
        seq (modify (\<lambda>s. upd_buf lbuf (\<lambda>lp. lp\<lparr>data := data (bufs s b)\<rparr>) s))
        (seq (bwrite lbuf)
        (seq (brelse lbuf)
        (seq (whenM (int i = n) (modify (\<lambda>s. s\<lparr>lh_n := lh_n s + 1\<rparr>)))
             (modify (upd_buf b (\<lambda>bp. bp\<lparr>flags := flags bp OR B_DIRTY\<rparr>))))))))))))"

end
