(* ===== verification/Recovery.thy ===== *)
theory Recovery
  imports Log
begin

unbundle bit_operations_syntax

text \<open>
  Crash recovery.  The disk is seen as a function from block numbers to contents; a crash leaves it with
  a prefix of the writes the driver was given.  The log occupies the header block \<open>st\<close> and the
  \<open>LOGSIZE\<close> blocks after it.  The first part is about such disks only: which writes the recovery
  of a disk makes, and that interrupting them changes nothing.  The second part shows that the operations of
  log.c make exactly these writes.
\<close>

section \<open>Disks and their recovery\<close>

definition log_block :: "uint \<Rightarrow> nat \<Rightarrow> uint" where
  "log_block st i = st + of_nat i + 1"

definition log_region :: "uint \<Rightarrow> uint set" where
  "log_region st = insert st (log_block st ` {0..<LOGSIZE})"

definition head_n :: "uchar list \<Rightarrow> int" where
  "head_n h = sint (rd32 h 0)"

definition head_sec :: "uchar list \<Rightarrow> nat \<Rightarrow> uint" where
  "head_sec h i = rd32 h (4 + 4 * i)"

definition enc_head :: "int \<Rightarrow> (nat \<Rightarrow> uint) \<Rightarrow> uchar list \<Rightarrow> uchar list" where
  "enc_head n sec h = fold (\<lambda>i. wr32 (4 + 4 * i) (sec i)) [0..<nat n] (wr32 0 (of_int n) h)"

definition apply_writes :: "(uint \<Rightarrow> uchar list) \<Rightarrow> (uint \<times> uchar list) list \<Rightarrow> uint \<Rightarrow> uchar list" where
  "apply_writes d ws = fold (\<lambda>(n, x) d. d(n := x)) ws d"

definition installs :: "uint \<Rightarrow> (nat \<Rightarrow> uint) \<Rightarrow> (uint \<Rightarrow> uchar list) \<Rightarrow> nat \<Rightarrow> (uint \<times> uchar list) list" where
  "installs st sec d k = map (\<lambda>i. (sec i, d (log_block st i))) [0..<k]"

definition recovery_writes :: "(uint \<Rightarrow> uchar list) \<Rightarrow> uint \<Rightarrow> (uint \<times> uchar list) list" where
  "recovery_writes d st =
     installs st (head_sec (d st)) d (nat (head_n (d st))) @ [(st, wr32 0 0 (d st))]"

definition recovered :: "(uint \<Rightarrow> uchar list) \<Rightarrow> uint \<Rightarrow> uint \<Rightarrow> uchar list" where
  "recovered d st = apply_writes d (recovery_writes d st)"

text \<open>A disk whose log header is readable: the count fits and no home block lies in the log.\<close>

definition log_disk :: "(uint \<Rightarrow> uchar list) \<Rightarrow> uint \<Rightarrow> bool" where
  "log_disk d st \<longleftrightarrow> length (d st) = BSIZE \<and> head_n (d st) \<le> int LOGSIZE \<and>
     (\<forall>i < nat (head_n (d st)). head_sec (d st) i \<notin> log_region st)"

lemma apply_writes_simps [simp]:
  "apply_writes d [] = d" "apply_writes d ((n, x) # ws) = apply_writes (d(n := x)) ws"
  "apply_writes d (vs @ ws) = apply_writes (apply_writes d vs) ws"
  by (simp_all add: apply_writes_def)

lemma apply_writes_other: "n \<notin> fst ` set ws \<Longrightarrow> apply_writes d ws n = d n"
  by (induction ws arbitrary: d) auto

lemma apply_writes_cong: "n \<in> fst ` set ws \<Longrightarrow> apply_writes d ws n = apply_writes e ws n"
proof (induction ws arbitrary: d e)
  case Nil
  then show ?case by simp
next
  case (Cons w ws)
  obtain m x where w: "w = (m, x)" by force
  show ?case
  proof (cases "n \<in> fst ` set ws")
    case True
    then show ?thesis using Cons.IH w by simp
  next
    case False
    then have "n = m" using Cons.prems w by auto
    then show ?thesis using False w by (simp add: apply_writes_other)
  qed
qed

text \<open>Writing a part of the list first makes no difference.\<close>

lemma apply_writes_twice: "set vs \<subseteq> set ws \<Longrightarrow> apply_writes (apply_writes d vs) ws = apply_writes d ws"
proof
  fix n
  assume s: "set vs \<subseteq> set ws"
  show "apply_writes (apply_writes d vs) ws n = apply_writes d ws n"
  proof (cases "n \<in> fst ` set ws")
    case True
    then show ?thesis by (rule apply_writes_cong)
  next
    case False
    then have "n \<notin> fst ` set vs" using s by auto
    then show ?thesis using False by (simp add: apply_writes_other)
  qed
qed

lemma length_installs [simp]: "length (installs st sec d k) = k"
  by (simp add: installs_def)

lemma fst_installs: "fst ` set (installs st sec d k) = sec ` {0..<k}"
  by (force simp: installs_def)

lemma installs_cong:
  "(\<And>i. i < k \<Longrightarrow> sec i = sec' i) \<Longrightarrow> (\<And>i. i < k \<Longrightarrow> d (log_block st i) = d' (log_block st i)) \<Longrightarrow>
   installs st sec d k = installs st sec' d' k"
  by (simp add: installs_def)

lemma log_region_block: "i < LOGSIZE \<Longrightarrow> log_block st i \<in> log_region st" "st \<in> log_region st"
  by (auto simp: log_region_def)

lemma installs_log:
  assumes "\<And>i. i < k \<Longrightarrow> sec i \<notin> log_region st" and "n \<in> log_region st" and "set vs \<subseteq> set (installs st sec d k)"
  shows "apply_writes e vs n = e n"
proof (rule apply_writes_other)
  have "fst ` set vs \<subseteq> sec ` {0..<k}" using image_mono [OF assms(3), of fst] by (simp only: fst_installs)
  moreover have "n \<notin> sec ` {0..<k}" using assms(1,2) by auto
  ultimately show "n \<notin> fst ` set vs" by blast
qed

lemma log_block_inj:
  shows "i < LOGSIZE \<Longrightarrow> j < LOGSIZE \<Longrightarrow> log_block st i = log_block st j \<longleftrightarrow> i = j" and "i < LOGSIZE \<Longrightarrow> log_block st i \<noteq> st"
proof -
  have n: "unat (of_nat k :: uint) = k" if "k \<le> LOGSIZE" for k
    using that by (simp add: unat_of_nat LOGSIZE_def)
  have "log_block st i = log_block st j \<longleftrightarrow> (of_nat i :: uint) = of_nat j" by (simp add: log_block_def)
  then show "log_block st i = log_block st j \<longleftrightarrow> i = j" if "i < LOGSIZE" "j < LOGSIZE"
    using n [of i] n [of j] that by (metis order.strict_implies_order)
  assume "i < LOGSIZE"
  then have "(of_nat (Suc i) :: uint) \<noteq> 0" using n [of "Suc i"] by (metis Suc_leI nat.distinct(1) unat_0)
  moreover have "log_block st i = st + of_nat (Suc i)" by (simp add: log_block_def algebra_simps)
  ultimately show "log_block st i \<noteq> st" by simp
qed

text \<open>The header block.\<close>

lemma wr32_0_head:
  assumes "length h = BSIZE"
  shows "head_n (wr32 0 w h) = sint w" and "head_sec (wr32 0 w h) i = head_sec h i"
  using assms by (simp_all add: head_n_def head_sec_def BSIZE_def)

lemma wr32_0_twice: "wr32 0 v (wr32 0 w h) = wr32 0 v h"
  by (simp add: wr32_def list_update_swap)

lemma enc_head_0 [simp]: "enc_head 0 sec h = wr32 0 0 h"
  by (simp add: enc_head_def)

lemma wr_secs:
  assumes "length h = BSIZE" and "k \<le> LOGSIZE"
  shows "length (fold (\<lambda>i. wr32 (4 + 4 * i) (sec i)) [0..<k] h) = BSIZE"
    and "rd32 (fold (\<lambda>i. wr32 (4 + 4 * i) (sec i)) [0..<k] h) 0 = rd32 h 0"
    and "i < k \<Longrightarrow> rd32 (fold (\<lambda>i. wr32 (4 + 4 * i) (sec i)) [0..<k] h) (4 + 4 * i) = sec i"
  using assms(2)
proof (induction k)
  case (Suc k)
  {
    case 1
    with Suc.IH(1) show ?case by simp
  next
    case 2
    with Suc.IH(2) show ?case by simp
  next
    case 3
    have l: "4 + 4 * k + 3 < length (fold (\<lambda>i. wr32 (4 + 4 * i) (sec i)) [0..<k] h)"
      using 3(2) Suc.IH(1) by (simp add: LOGSIZE_def BSIZE_def)
    show ?case
    proof (cases "i = k")
      case True
      then show ?thesis using l by simp
    next
      case False
      then show ?thesis using 3 Suc.IH(3) by (simp add: less_Suc_eq)
    qed
  }
qed (use assms(1) in simp_all)

lemma enc_head_read:
  assumes "length h = BSIZE" and "0 \<le> n" and "n \<le> int LOGSIZE"
  shows "length (enc_head n sec h) = BSIZE" and "head_n (enc_head n sec h) = n"
    and "i < nat n \<Longrightarrow> head_sec (enc_head n sec h) i = sec i"
proof -
  have k: "nat n \<le> LOGSIZE" and l: "length (wr32 0 (of_int n) h) = BSIZE" using assms by auto
  have "sint (of_int n :: uint) = n" using assms by (simp add: signed_of_int signed_take_bit_int_eq_self LOGSIZE_def)
  moreover have "rd32 (wr32 0 (of_int n) h) 0 = (of_int n :: uint)" using assms(1) by (simp add: BSIZE_def)
  ultimately show "head_n (enc_head n sec h) = n" using wr_secs(2) [OF l k, of sec] by (simp add: head_n_def enc_head_def)
  show "length (enc_head n sec h) = BSIZE" using wr_secs(1) [OF l k] by (simp add: enc_head_def)
  show "i < nat n \<Longrightarrow> head_sec (enc_head n sec h) i = sec i"
    using wr_secs(3) [OF l k] by (simp add: head_sec_def enc_head_def)
qed

text \<open>An interrupted recovery, run again, gives the disk that the uninterrupted one gives.\<close>

lemma recovery_writes_prefix:
  assumes "log_disk d st" and "k \<le> nat (head_n (d st))"
  shows "recovery_writes (apply_writes d (take k (recovery_writes d st))) st = recovery_writes d st"
proof -
  let ?n = "nat (head_n (d st))" and ?is = "installs st (head_sec (d st)) d (nat (head_n (d st)))"
  let ?e = "apply_writes d (take k ?is)"
  have t: "take k (recovery_writes d st) = take k ?is" using assms(2) by (simp add: recovery_writes_def)
  have sub: "set (take k ?is) \<subseteq> set ?is" by (rule set_take_subset)
  have out: "\<And>i. i < ?n \<Longrightarrow> head_sec (d st) i \<notin> log_region st" using assms(1) by (simp add: log_disk_def)
  have same: "?e m = d m" if "m \<in> log_region st" for m
    by (rule installs_log [OF out that sub])
  have "installs st (head_sec (d st)) ?e ?n = ?is"
    using assms(1) by (intro installs_cong same log_region_block) (auto simp: log_disk_def)
  then show ?thesis unfolding t by (simp add: recovery_writes_def same log_region_block)
qed

lemma recovered_prefix:
  assumes d: "log_disk d st"
  shows "recovered (apply_writes d (take k (recovery_writes d st))) st = recovered d st"
proof (cases "k \<le> nat (head_n (d st))")
  case True
  show ?thesis unfolding recovered_def recovery_writes_prefix [OF d True]
    by (rule apply_writes_twice) (rule set_take_subset)
next
  case False
  let ?is = "installs st (head_sec (d st)) d (nat (head_n (d st)))"
  have out: "\<And>i. i < nat (head_n (d st)) \<Longrightarrow> head_sec (d st) i \<notin> log_region st" using d by (simp add: log_disk_def)
  have "take k (recovery_writes d st) = recovery_writes d st" using False by (simp add: recovery_writes_def)
  then have e: "apply_writes d (take k (recovery_writes d st)) = (apply_writes d ?is)(st := wr32 0 0 (d st))"
    by (simp add: recovery_writes_def)
  have "head_n (wr32 0 0 (d st)) = 0" using d wr32_0_head(1) [of "d st" 0] by (simp add: log_disk_def)
  then show ?thesis unfolding recovered_def e
    by (simp add: recovery_writes_def installs_def wr32_0_twice)
qed

text \<open>
  A disk that boots: its header can be read, and the blocks it names are on the disk.
\<close>

definition bootable :: "(uint \<Rightarrow> uchar list) \<Rightarrow> uint \<Rightarrow> uint \<Rightarrow> bool" where
  "bootable d st cap \<longleftrightarrow> log_disk d st \<and> (\<forall>i < nat (head_n (d st)). head_sec (d st) i < cap)"

lemma bootable_prefix:
  assumes d: "bootable d st cap"
  shows "bootable (apply_writes d (take k (recovery_writes d st))) st cap"
proof (cases "k \<le> nat (head_n (d st))")
  case True
  let ?is = "installs st (head_sec (d st)) d (nat (head_n (d st)))"
  have out: "\<And>i. i < nat (head_n (d st)) \<Longrightarrow> head_sec (d st) i \<notin> log_region st"
    using d by (simp add: bootable_def log_disk_def)
  have "apply_writes d (take k ?is) st = d st"
    by (rule installs_log [OF out log_region_block(2) set_take_subset])
  then show ?thesis using True d by (simp add: recovery_writes_def bootable_def log_disk_def)
next
  case False
  then have "apply_writes d (take k (recovery_writes d st)) st = wr32 0 0 (d st)" by (simp add: recovery_writes_def)
  then show ?thesis using d wr32_0_head(1) [of "d st" 0] by (simp add: bootable_def log_disk_def LOGSIZE_def)
qed

text \<open>A crash during recovery after \<open>k\<close> of its writes, and a sequence of such crashes.\<close>

definition crash_again :: "uint \<Rightarrow> (uint \<Rightarrow> uchar list) \<Rightarrow> nat \<Rightarrow> uint \<Rightarrow> uchar list" where
  "crash_again st d k = apply_writes d (take k (recovery_writes d st))"

lemma crashes:
  assumes "bootable d st cap"
  shows "bootable (foldl (crash_again st) d ks) st cap \<and> recovered (foldl (crash_again st) d ks) st = recovered d st"
  using assms
proof (induction ks arbitrary: d)
  case (Cons k ks)
  have b: "bootable (crash_again st d k) st cap" using bootable_prefix [OF Cons.prems] by (simp add: crash_again_def)
  have "recovered (crash_again st d k) st = recovered d st"
    using Cons.prems recovered_prefix by (simp add: crash_again_def bootable_def)
  then show ?case using Cons.IH [OF b] by simp
qed simp

section \<open>The layer's simplification rules\<close>

lemma klog_lock_simps [simp]:
  "lstart (settled s) = lstart s" "lsize (settled s) = lsize s" "lbusy (settled s) = lbusy s"
  "ldev (settled s) = ldev s" "lh_n (settled s) = lh_n s" "lh_sector (settled s) = lh_sector s"
  "lstart (taken lk s) = lstart s" "lsize (taken lk s) = lsize s" "lbusy (taken lk s) = lbusy s"
  "ldev (taken lk s) = ldev s" "lh_n (taken lk s) = lh_n s" "lh_sector (taken lk s) = lh_sector s"
  "lh_n_update g (settled s) = settled (lh_n_update g s)"
  "lh_sector_update h (settled s) = settled (lh_sector_update h s)"
  "lbusy_update f (taken lk s) = taken lk (lbusy_update f s)"
  "lbusy_update f (settled s) = settled (lbusy_update f s)"
  by (simp_all add: settled_def taken_def core_defs)

lemma view_same:
  assumes "bufs t = bufs s" and "memdisk t = memdisk s"
  shows "held t = held s" and "pinned t = pinned s" and "spare t = spare s" and "blk t = blk s"
proof -
  have h: "holds t = holds s" using assms by (simp add: holds_def fun_eq_iff)
  show "held t = held s" "pinned t = pinned s" "spare t = spare s"
    using assms by (simp_all add: held_def pinned_def spare_def spares_def fun_eq_iff h)
  show "blk t = blk s" using assms by (simp add: blk_def fun_eq_iff h split: option.split)
qed

lemma bcache_ok_same:
  assumes "bufs t = bufs s" and "memdisk t = memdisk s" and "me t = me s" and "cpus t = cpus s" and "locks t = locks s"
  shows "bcache_ok t = bcache_ok s"
proof -
  have "ring t = ring s" using assms(1) by (simp add: fun_eq_iff ring_def nx_def pv_def)
  then show ?thesis using assms
    by (simp add: bcache_ok_def bc_ready_def bc_wf_def idle_def cli_wf_def mycpu_def)
qed

lemma klog_view_simps [simp]:
  "bcache_ok (lh_n_update f s) = bcache_ok s" "held (lh_n_update f s) = held s" "pinned (lh_n_update f s) = pinned s"
  "spare (lh_n_update f s) = spare s" "blk (lh_n_update f s) = blk s"
  "bcache_ok (lh_sector_update g s) = bcache_ok s" "held (lh_sector_update g s) = held s"
  "pinned (lh_sector_update g s) = pinned s" "spare (lh_sector_update g s) = spare s" "blk (lh_sector_update g s) = blk s"
  "bcache_ok (lbusy_update h s) = bcache_ok s" "held (lbusy_update h s) = held s" "pinned (lbusy_update h s) = pinned s"
  "spare (lbusy_update h s) = spare s" "blk (lbusy_update h s) = blk s"
  "idle lk (lh_n_update f s) = idle lk s" "cli_wf (lh_n_update f s) = cli_wf s"
  "idle lk (lh_sector_update g s) = idle lk s" "cli_wf (lh_sector_update g s) = cli_wf s"
  "idle lk (lbusy_update h s) = idle lk s" "cli_wf (lbusy_update h s) = cli_wf s"
  by (simp_all add: view_same [of "lh_n_update f s" s] view_same [of "lh_sector_update g s" s]
      view_same [of "lbusy_update h s" s] bcache_ok_same [of "lh_n_update f s" s]
      bcache_ok_same [of "lh_sector_update g s" s] bcache_ok_same [of "lbusy_update h s" s]
      idle_def cli_wf_def mycpu_def)

lemma klog_frame:
  assumes "bframe s t"
  shows "lstart t = lstart s" and "lsize t = lsize s" and "lbusy t = lbusy s" and "ldev t = ldev s"
    and "lh_n t = lh_n s" and "lh_sector t = lh_sector s" and "idle LogLock t = idle LogLock s"
  using assms by (auto simp: bframe_def split: if_splits)

section \<open>write_head\<close>

text \<open>What an operation on blocks does to the client's view: the content of the blocks and the disk after it.\<close>

definition wrote :: "(uint \<times> uchar list) list \<Rightarrow> 'e kbio_scheme \<Rightarrow> 'e kbio_scheme \<Rightarrow> bool" where
  "wrote ws s t \<longleftrightarrow> bframe s t \<and> bcache_ok t \<and> held t = held s \<and> blk t = apply_writes (blk s) ws
     \<and> memdisk t = apply_writes (memdisk s) ws \<and> pinned t = pinned s - fst ` set ws
     \<and> dwrites t = dwrites s @ ws \<and> spare s \<le> spare t"

lemma wrote_trans: "wrote vs s t \<Longrightarrow> wrote ws t u \<Longrightarrow> wrote (vs @ ws) s u"
  unfolding wrote_def by (auto intro: bframe_trans)

lemma wrote_disksize: "wrote ws s t \<Longrightarrow> disksize t = disksize s"
  by (simp add: wrote_def disksize_frame)

lemma upd_buf_comp: "upd_buf b f (upd_buf b g s) = upd_buf b (\<lambda>bp. f (g bp)) s"
  by (simp add: upd_buf_def)

lemma upd_buf_klog [simp]:
  "lstart (upd_buf b f s) = lstart s" "lsize (upd_buf b f s) = lsize s" "lbusy (upd_buf b f s) = lbusy s"
  "ldev (upd_buf b f s) = ldev s" "lh_n (upd_buf b f s) = lh_n s" "lh_sector (upd_buf b f s) = lh_sector s"
  by (simp_all add: upd_buf_def)

lemma wrote_idle: "wrote ws s t \<Longrightarrow> idle LogLock t = idle LogLock s"
  for s :: "'e klog_scheme"
  by (rule klog_frame(7)) (simp add: wrote_def)

lemma head_loop:
  "forM [0..<k] (\<lambda>i. modify (\<lambda>s. upd_buf b (\<lambda>bp. bp\<lparr>data := wr32 (4 + 4 * i) (lh_sector s i) (data bp)\<rparr>) s)) u =
   Ok () (upd_buf b (\<lambda>bp. bp\<lparr>data := fold (\<lambda>i. wr32 (4 + 4 * i) (lh_sector u i)) [0..<k] (data bp)\<rparr>) u)"
proof (induction k)
  case 0
  show ?case by (simp add: upd_buf_def)
next
  case (Suc k)
  show ?case unfolding upt_Suc_append [OF le0] forM_snoc Suc by (simp add: upd_buf_comp upd_buf_klog)
qed

lemma write_head_wrote:
  assumes "bcache_ok s" and "ldev s = 1" and "lstart s < disksize s" and "lstart s \<notin> ran (held s)"
    and "lstart s \<in> pinned s \<or> 0 < spare s"
  shows "\<exists>t. write_head s = Ok () t \<and> wrote [(lstart s, enc_head (lh_n s) (lh_sector s) (blk s (lstart s)))] s t"
proof -
  let ?g = "enc_head (lh_n s) (lh_sector s)"
  obtain t where t: "bnd (bread 1 (lstart s)) (\<lambda>b. seq (modify (\<lambda>s. upd_buf b (\<lambda>bp. bp\<lparr>data := ?g (data (bufs s b))\<rparr>) s))
      (seq (bwrite b) (brelse b))) s = Ok () t" and v: "bframe s t" "bcache_ok t" "held t = held s"
      "blk t = (blk s)(lstart s := ?g (blk s (lstart s)))" "pinned t = pinned s - {lstart s}"
      "memdisk t = (memdisk s)(lstart s := ?g (blk s (lstart s)))"
      "dwrites t = dwrites s @ [(lstart s, ?g (blk s (lstart s)))]" "spare s \<le> spare t"
    by (rule bcache.poke_block [OF assms(1,3,4,5), of ?g])
  obtain b u where u: "bread 1 (lstart s) s = Ok b u" "bframe s u" by (rule bread_view [OF assms(1,3,4,5)])
  have "upd_buf b (\<lambda>bp. bp\<lparr>data := ?g (data (bufs u b))\<rparr>) u = upd_buf b (\<lambda>bp. bp\<lparr>data := ?g (data bp)\<rparr>) u"
    by (simp add: upd_buf_def)
  then have "write_head s = Ok () t"
    using t u(1) klog_frame [OF u(2)] assms(2)
    by (simp add: write_head_def seq_apply head_loop enc_head_def upd_buf_comp)
  with v show ?thesis by (auto simp: wrote_def)
qed


section \<open>install_trans\<close>

text \<open>The log lies on the disk, no process uses its blocks, and two buffers can be recycled.\<close>

definition log_clear :: "'e klog_scheme \<Rightarrow> bool" where
  "log_clear s \<longleftrightarrow> bcache_ok s \<and> ldev s = 1 \<and> unat (lstart s) + LOGSIZE < unat (disksize s) \<and> 2 \<le> spare s
     \<and> log_region (lstart s) \<inter> (ran (held s) \<union> pinned s) = {}"

definition home_ok :: "'e klog_scheme \<Rightarrow> (nat \<Rightarrow> uint) \<Rightarrow> nat \<Rightarrow> bool" where
  "home_ok s sec k \<longleftrightarrow>
     (\<forall>i < k. sec i < disksize s \<and> sec i \<notin> log_region (lstart s) \<and> sec i \<notin> ran (held s))"

lemma log_block_cap:
  assumes "unat st + LOGSIZE < unat d" and "i < LOGSIZE"
  shows "log_block st i < d" and "st < d"
proof -
  have d: "unat d < 2 ^ 32" using unsigned_less [of d] by simp
  have "unat (log_block st i) = unat (st + of_nat (Suc i))" by (simp add: log_block_def algebra_simps)
  also have "\<dots> = unat st + Suc i"
    using assms d by (simp add: unat_word_ariths unat_of_nat LOGSIZE_def)
  finally show "log_block st i < d" using assms by (simp add: word_less_nat_alt)
  show "st < d" using assms by (simp add: word_less_nat_alt)
qed

lemma log_clear_wrote:
  assumes "log_clear s" and "wrote ws s t"
  shows "log_clear t" and "lstart t = lstart s" and "lh_n t = lh_n s" and "lh_sector t = lh_sector s"
  using assms klog_frame [of s t] wrote_disksize [OF assms(2)] by (auto simp: log_clear_def wrote_def)

lemma home_ok_wrote: "wrote ws s t \<Longrightarrow> home_ok s sec k \<Longrightarrow> home_ok t sec k"
  using klog_frame [of s t] wrote_disksize [of ws s t] by (auto simp: home_ok_def wrote_def)

lemma install_step:
  assumes "log_clear s" and "home_ok s (lh_sector s) k" and "i < k" and "i < LOGSIZE"
  shows "\<exists>t. bnd (gets (\<lambda>s. (ldev s, lstart s + of_nat i + 1, lh_sector s i))) (\<lambda>(d, lb, db).
       bnd (bread d lb) (\<lambda>lbuf.
       bnd (bread d db) (\<lambda>dbuf.
       seq (modify (\<lambda>s. upd_buf dbuf (\<lambda>bp. bp\<lparr>data := data (bufs s lbuf)\<rparr>) s))
       (seq (bwrite dbuf) (seq (brelse lbuf) (brelse dbuf)))))) s = Ok () t
    \<and> wrote [(lh_sector s i, blk s (log_block (lstart s) i))] s t"
proof -
  let ?l = "log_block (lstart s) i" and ?n = "lh_sector s i"
  have c: "bcache_ok s" "ldev s = 1" "2 \<le> spare s" and r: "?l \<in> log_region (lstart s)"
    using assms by (simp_all add: log_clear_def log_region_block)
  have l: "?l \<notin> ran (held s)" "?l \<notin> pinned s" using assms(1) r by (auto simp: log_clear_def)
  have lc: "?l < disksize s" using assms by (intro log_block_cap) (simp_all add: log_clear_def)
  have n: "?n < disksize s" "?n \<notin> ran (held s)" "?l \<noteq> ?n" using assms(2,3) r by (auto simp: home_ok_def)
  obtain t where "bnd (bread 1 ?l) (\<lambda>lb. bnd (bread 1 ?n) (\<lambda>b. seq (modify (\<lambda>s. upd_buf b (\<lambda>bp. bp\<lparr>data := data (bufs s lb)\<rparr>) s))
      (seq (bwrite b) (seq (brelse lb) (brelse b))))) s = Ok () t"
    and "bframe s t" "bcache_ok t" "held t = held s" "blk t = (blk s)(?n := blk s ?l)"
      "pinned t = pinned s - {?n}" "memdisk t = (memdisk s)(?n := blk s ?l)"
      "dwrites t = dwrites s @ [(?n, blk s ?l)]" "spare s \<le> spare t"
    by (rule bcache.copy_block [OF c(1) lc n(1) l(1) n(2,3) l(2) c(3)])
  then show ?thesis using c(2) by (auto simp: wrote_def log_block_def)
qed

lemma install_loop:
  assumes "log_clear s" and "home_ok s (lh_sector s) k" and "k \<le> LOGSIZE"
  shows "\<exists>t. forM [0..<k] (\<lambda>tail.
       bnd (gets (\<lambda>s. (ldev s, lstart s + of_nat tail + 1, lh_sector s tail))) (\<lambda>(d, lb, db).
       bnd (bread d lb) (\<lambda>lbuf.
       bnd (bread d db) (\<lambda>dbuf.
       seq (modify (\<lambda>s. upd_buf dbuf (\<lambda>bp. bp\<lparr>data := data (bufs s lbuf)\<rparr>) s))
       (seq (bwrite dbuf) (seq (brelse lbuf) (brelse dbuf))))))) s = Ok () t
    \<and> wrote (installs (lstart s) (lh_sector s) (blk s) k) s t"
    (is "\<exists>t. forM _ ?body s = Ok () t \<and> _")
  using assms(2,3)
proof (induction k)
  case 0
  show ?case using assms(1) by (simp add: wrote_def installs_def log_clear_def)
next
  case (Suc k)
  let ?is = "installs (lstart s) (lh_sector s) (blk s) k"
  have "home_ok s (lh_sector s) k" "k \<le> LOGSIZE" using Suc.prems by (auto simp: home_ok_def)
  from Suc.IH [OF this] obtain t where t: "forM [0..<k] ?body s = Ok () t" "wrote ?is s t"
    by blast
  note lt = log_clear_wrote [OF assms(1) t(2)]
  have out: "\<And>i. i < k \<Longrightarrow> lh_sector s i \<notin> log_region (lstart s)" using Suc.prems(1) by (simp add: home_ok_def)
  have r: "log_block (lstart s) k \<in> log_region (lstart s)" using Suc.prems(2) by (intro log_region_block) simp
  have b: "blk t (log_block (lstart s) k) = blk s (log_block (lstart s) k)"
    using t(2) installs_log [OF out r order_refl] by (simp add: wrote_def)
  have "home_ok t (lh_sector t) (Suc k)" using home_ok_wrote [OF t(2) Suc.prems(1)] lt(4) by simp
  from install_step [OF lt(1) this, of k] Suc.prems(2) obtain u where u: "?body k t = Ok () u"
    "wrote [(lh_sector t k, blk t (log_block (lstart t) k))] t u" using lessI Suc_le_lessD by blast
  have e: "?is @ [(lh_sector s k, blk s (log_block (lstart s) k))] =
      installs (lstart s) (lh_sector s) (blk s) (Suc k)" by (simp add: installs_def)
  have "forM [0..<Suc k] ?body s = Ok () u"
    unfolding upt_Suc_append [OF le0] forM_snoc t(1) res.case by (rule u(1))
  moreover have "wrote (installs (lstart s) (lh_sector s) (blk s) (Suc k)) s u"
    using wrote_trans [OF t(2) u(2)] unfolding lt b e .
  ultimately show ?case by blast
qed

lemma install_trans_wrote:
  assumes "log_clear s" and "home_ok s (lh_sector s) (nat (lh_n s))" and "lh_n s \<le> int LOGSIZE"
  shows "\<exists>t. install_trans s = Ok () t \<and> wrote (installs (lstart s) (lh_sector s) (blk s) (nat (lh_n s))) s t"
  using install_loop [OF assms(1,2)] assms(3) by (simp add: install_trans_def)

lemma log_clear_start:
  assumes "log_clear s"
  shows "bcache_ok s" and "ldev s = 1" and "lstart s < disksize s" and "lstart s \<notin> ran (held s)"
    and "lstart s \<in> pinned s \<or> 0 < spare s" and "lstart s \<notin> pinned s"
  using assms log_block_cap(2) [of "lstart s" "disksize s" 0] log_region_block(2) [of "lstart s"]
  by (auto simp: log_clear_def LOGSIZE_def)

lemma write_head_clear:
  assumes "log_clear s"
  shows "\<exists>t. write_head s = Ok () t \<and> wrote [(lstart s, enc_head (lh_n s) (lh_sector s) (blk s (lstart s)))] s t"
  by (rule write_head_wrote [OF log_clear_start(1-5) [OF assms]])

lemma blk_log_region:
  assumes "log_clear s" and "n \<in> log_region (lstart s)"
  shows "blk s n = memdisk s n"
  using assms by (intro clean_blk) (auto simp: log_clear_def)

lemma installs_disk:
  assumes "log_clear s" and "k \<le> LOGSIZE"
  shows "installs (lstart s) sec (blk s) k = installs (lstart s) sec (memdisk s) k"
  using assms by (intro installs_cong blk_log_region log_region_block) simp_all


section \<open>Recovery\<close>

lemma bframe_head:
  assumes "bframe s t"
  shows "bframe (s\<lparr>lh_n := n, lh_sector := f\<rparr>) (t\<lparr>lh_n := n, lh_sector := f\<rparr>)"
proof -
  from assms obtain q B M W P where w: "woken (ptable s) P"
    and t: "t = (if q then settled else id) (s\<lparr>ptable := P, bufs := B, memdisk := M, dwrites := W\<rparr>)"
    by (auto simp: bframe_def)
  have e: "(s\<lparr>ptable := P, bufs := B, memdisk := M, dwrites := W\<rparr>)\<lparr>lh_n := n, lh_sector := f\<rparr> =
      (s\<lparr>lh_n := n, lh_sector := f\<rparr>)\<lparr>ptable := P, bufs := B, memdisk := M, dwrites := W\<rparr>"
    by (rule klog.equality) simp_all
  have "t\<lparr>lh_n := n, lh_sector := f\<rparr> = (if q then settled else id)
      ((s\<lparr>lh_n := n, lh_sector := f\<rparr>)\<lparr>ptable := P, bufs := B, memdisk := M, dwrites := W\<rparr>)"
    unfolding e [symmetric] t by simp
  moreover have "ptable (s\<lparr>lh_n := n, lh_sector := f\<rparr>) = ptable s" by simp
  ultimately show ?thesis using w unfolding bframe_def by metis
qed

lemma sector_loop:
  "forM [0..<k] (\<lambda>i. modify (\<lambda>s. s\<lparr>lh_sector := (lh_sector s)(i := f i)\<rparr>)) u =
   Ok () (u\<lparr>lh_sector := (\<lambda>i. if i < k then f i else lh_sector u i)\<rparr>)"
proof (induction k)
  case 0
  show ?case by simp
next
  case (Suc k)
  have "(\<lambda>i. if i < k then f i else lh_sector u i)(k := f k) = (\<lambda>i. if i < Suc k then f i else lh_sector u i)"
    by (auto simp: fun_eq_iff less_Suc_eq)
  then show ?case unfolding upt_Suc_append [OF le0] forM_snoc Suc by simp
qed

definition head_read :: "'e klog_scheme \<Rightarrow> uchar list \<Rightarrow> 'e klog_scheme" where
  "head_read s h = s\<lparr>lh_n := head_n h,
     lh_sector := (\<lambda>i. if i < nat (head_n h) then head_sec h i else lh_sector s i)\<rparr>"

lemma read_head_reads:
  assumes "log_clear s" and "head_n (memdisk s (lstart s)) \<le> int LOGSIZE"
  shows "\<exists>t. read_head s = Ok () t \<and> wrote [] (head_read s (memdisk s (lstart s))) t"
proof -
  let ?st = "lstart s" let ?h = "memdisk s ?st"
  note c = log_clear_start [OF assms(1)]
  obtain b u where u: "bread 1 ?st s = Ok b u" "bframe s u" "bcache_ok u" "held s b = None" "held u = (held s)(b \<mapsto> ?st)"
    "blk u = blk s" "pinned u = pinned s" "memdisk u = memdisk s" "dwrites u = dwrites s"
    "spare u = spare s - (if ?st \<in> pinned s then 0 else 1)" by (rule bread_view [OF c(1,3,4,5)])
  have h: "held u b = Some ?st" using u(5) by simp
  have d: "data (bufs u b) = ?h"
    using bcache_okD(8) [OF u(3) h] u(6) blk_log_region [OF assms(1) log_region_block(2)] by simp
  let ?f = "\<lambda>i. if i < nat (head_n ?h) then head_sec ?h i else lh_sector s i"
  let ?v = "u\<lparr>lh_n := head_n ?h, lh_sector := ?f\<rparr>"
  have hv: "bcache_ok ?v" "held ?v b = Some ?st" "?st \<in> pinned ?v \<or> blk ?v ?st = memdisk ?v ?st"
    using u(3,6,8) h blk_log_region [OF assms(1) log_region_block(2)] by simp_all
  obtain t where t: "brelse b ?v = Ok () t" "bframe ?v t" "bcache_ok t" "held t = (held ?v)(b := None)" "blk t = blk ?v"
    "pinned t = pinned ?v" "memdisk t = memdisk ?v" "dwrites t = dwrites ?v"
    "spare t = spare ?v + (if ?st \<in> pinned ?v then 0 else 1)" by (rule brelse_view [OF hv])
  have r: "read_head s = Ok () t"
    using u(1) t(1) assms(2) c(2) klog_frame [OF u(2)] unfolding read_head_def
    by (simp add: seq_apply d sector_loop head_n_def [symmetric] head_sec_def [symmetric] cong: if_cong)
  have "bframe (head_read s ?h) t"
    unfolding head_read_def by (rule bframe_trans [OF bframe_head [OF u(2)] t(2)])
  moreover have "held t = held s" using t(4) u(4,5) by (auto simp: fun_eq_iff)
  moreover have "spare t = spare s" using t(9) u(7,10) c(5,6) by simp
  ultimately have "wrote [] (head_read s ?h) t"
    using t u unfolding wrote_def by (simp add: head_read_def)
  with r show ?thesis by blast
qed

lemma head_read_simps [simp]:
  "lstart (head_read s h) = lstart s" "lh_n (head_read s h) = head_n h" "blk (head_read s h) = blk s"
  "memdisk (head_read s h) = memdisk s" "dwrites (head_read s h) = dwrites s" "disksize (head_read s h) = disksize s"
  "log_clear (head_read s h) = log_clear s" "i < nat (head_n h) \<Longrightarrow> lh_sector (head_read s h) i = head_sec h i"
  by (simp_all add: head_read_def log_clear_def)

lemma recover_wrote:
  assumes "log_clear s" and "held s = Map.empty" and "bootable (memdisk s) (lstart s) (disksize s)"
  shows "\<exists>t. recover_from_log s = Ok () t \<and> dwrites t = dwrites s @ recovery_writes (memdisk s) (lstart s)
    \<and> memdisk t = recovered (memdisk s) (lstart s) \<and> log_clear t \<and> lh_n t = 0"
proof -
  let ?st = "lstart s" let ?h = "memdisk s ?st" let ?n = "nat (head_n ?h)"
  have lim: "head_n ?h \<le> int LOGSIZE" "?n \<le> LOGSIZE" using assms(3) by (simp_all add: bootable_def log_disk_def nat_le_iff)
  from read_head_reads [OF assms(1) lim(1)] obtain u where u: "read_head s = Ok () u" "wrote [] (head_read s ?h) u" by blast
  have "log_clear (head_read s ?h)" using assms(1) by simp
  note lu = log_clear_wrote [OF this u(2)]
  have hm: "home_ok u (lh_sector u) (nat (lh_n u))"
  proof (rule home_ok_wrote [OF u(2)])
    have "lh_sector u i = head_sec ?h i" if "i < ?n" for i using that lu(4) by simp
    moreover have "held (head_read s ?h) = Map.empty" using assms(2) by (simp add: head_read_def)
    ultimately show "home_ok (head_read s ?h) (lh_sector u) (nat (lh_n u))"
      using assms(3) lu(3) by (simp add: home_ok_def bootable_def log_disk_def)
  qed
  from install_trans_wrote [OF lu(1) hm] lu(3) lim(1) obtain v where v: "install_trans u = Ok () v"
    "wrote (installs (lstart u) (lh_sector u) (blk u) (nat (lh_n u))) u v" by auto
  note lv = log_clear_wrote [OF lu(1) v(2)]
  have ins: "installs (lstart u) (lh_sector u) (blk u) (nat (lh_n u)) = installs ?st (head_sec ?h) (memdisk s) ?n"
  proof -
    have "blk u (log_block ?st i) = memdisk s (log_block ?st i)" if "i < ?n" for i
      using that lim(2) u(2) blk_log_region [OF assms(1)] by (simp add: wrote_def log_region_block)
    then show ?thesis using lu by (auto intro: installs_cong)
  qed
  let ?w = "v\<lparr>lh_n := 0\<rparr>"
  have lw: "log_clear ?w" "lstart ?w = ?st" using lv lu by (simp_all add: log_clear_def)
  from write_head_clear [OF lw(1)] obtain t where t: "write_head ?w = Ok () t"
    "wrote [(lstart ?w, enc_head (lh_n ?w) (lh_sector ?w) (blk ?w (lstart ?w)))] ?w t" by blast
  have out: "\<And>i. i < ?n \<Longrightarrow> head_sec ?h i \<notin> log_region ?st" using assms(3) by (simp add: bootable_def log_disk_def)
  have b: "blk ?w ?st = ?h"
  proof -
    have "blk v ?st = blk u ?st" using v(2) ins installs_log [OF out log_region_block(2) order_refl] by (simp add: wrote_def)
    also have "\<dots> = ?h" using u(2) blk_log_region [OF assms(1) log_region_block(2)] by (simp add: wrote_def)
    finally show ?thesis by simp
  qed
  have "recover_from_log s = Ok () t" using u(1) v(1) t(1) by (simp add: recover_from_log_def)
  moreover have "dwrites t = dwrites s @ recovery_writes (memdisk s) ?st"
    using t(2) v(2) u(2) lw(2) b ins by (simp add: wrote_def recovery_writes_def)
  moreover have "memdisk t = recovered (memdisk s) ?st"
    using t(2) v(2) u(2) lw(2) b ins by (simp add: wrote_def recovered_def recovery_writes_def)
  moreover have "log_clear t" "lh_n t = 0" using log_clear_wrote [OF lw(1) t(2)] by simp_all
  ultimately show ?thesis by blast
qed


section \<open>Properties of the log\<close>

text \<open>The writes of a commit: the header with the count, the home blocks, the header with count 0.\<close>

definition commit_writes :: "(uint \<Rightarrow> uchar list) \<Rightarrow> uint \<Rightarrow> (nat \<Rightarrow> uint) \<Rightarrow> int \<Rightarrow> (uint \<times> uchar list) list" where
  "commit_writes d st sec n =
     (st, enc_head n sec (d st)) # installs st sec d (nat n) @ [(st, wr32 0 0 (enc_head n sec (d st)))]"

lemma bcache_ok_locks: "bcache_ok s \<Longrightarrow> idle BcacheLock s \<and> idle PtableLock s \<and> cli_wf s"
  by (auto simp: bcache_ok_def bc_ready_def)

text \<open>The end of \<open>commit_trans\<close>: the next transaction may start.\<close>

lemma end_trans:
  assumes "bcache_ok s" and "idle LogLock s"
  obtains t where "seq (acquire LogLock) (seq (modify (\<lambda>s. s\<lparr>lbusy := False\<rparr>)) (seq (wakeup ChLog) (release LogLock))) s = Ok () t"
    and "\<not> lbusy t" and "lh_n t = lh_n s" and "memdisk t = memdisk s" and "dwrites t = dwrites s" and "pinned t = pinned s"
    and "blk t = blk s"
proof -
  let ?t = "settled (s\<lparr>lbusy := False, ptable := map (wake (Some ChLog)) (ptable s)\<rparr>)"
  have lk: "idle PtableLock s" "cli_wf s" using bcache_ok_locks [OF assms(1)] by simp_all
  have "seq (acquire LogLock) (seq (modify (\<lambda>s. s\<lparr>lbusy := False\<rparr>)) (seq (wakeup ChLog) (release LogLock))) s = Ok () ?t"
    using assms(2) lk by (simp add: seq_apply wakeup_eq)
  then show thesis by (rule that) (simp_all del: klog_lock_simps(16))
qed

lemma commit_wrote:
  assumes "log_clear s" and "home_ok s (lh_sector s) (nat (lh_n s))" and "0 < lh_n s" and "lh_n s \<le> int LOGSIZE"
    and "idle LogLock s"
  shows "\<exists>t. commit_trans s = Ok () t \<and> \<not> lbusy t \<and> lh_n t = 0
    \<and> dwrites t = dwrites s @ commit_writes (memdisk s) (lstart s) (lh_sector s) (lh_n s)
    \<and> memdisk t = apply_writes (memdisk s) (commit_writes (memdisk s) (lstart s) (lh_sector s) (lh_n s))
    \<and> pinned t = pinned s - lh_sector s ` {0..<nat (lh_n s)}
    \<and> blk t = apply_writes (blk s) (commit_writes (memdisk s) (lstart s) (lh_sector s) (lh_n s))"
proof -
  let ?st = "lstart s" let ?n = "nat (lh_n s)" and ?sec = "lh_sector s"
  let ?h = "enc_head (lh_n s) ?sec (memdisk s ?st)"
  have k: "?n \<le> LOGSIZE" using assms(4) by (simp add: nat_le_iff)
  have bs: "blk s ?st = memdisk s ?st" by (rule blk_log_region [OF assms(1) log_region_block(2)])
  from write_head_clear [OF assms(1)] obtain u where u: "write_head s = Ok () u" "wrote [(?st, ?h)] s u"
    unfolding bs by blast
  note lu = log_clear_wrote [OF assms(1) u(2)]
  have hu: "home_ok u (lh_sector u) (nat (lh_n u))" using home_ok_wrote [OF u(2) assms(2)] lu by simp
  from install_trans_wrote [OF lu(1) hu] assms(4) lu(3) obtain v where v: "install_trans u = Ok () v"
    "wrote (installs (lstart u) (lh_sector u) (blk u) (nat (lh_n u))) u v" by auto
  have "blk u (log_block ?st i) = memdisk s (log_block ?st i)" if "i < ?n" for i
    using that k u(2) blk_log_region [OF assms(1)] log_block_inj(2) [of i ?st] by (simp add: wrote_def log_region_block)
  then have ins: "installs (lstart u) (lh_sector u) (blk u) (nat (lh_n u)) = installs ?st ?sec (memdisk s) ?n"
    using lu by (auto intro: installs_cong)
  note v' = v(2) [unfolded ins]
  note lv = log_clear_wrote [OF lu(1) v']
  have out: "\<And>i. i < ?n \<Longrightarrow> ?sec i \<notin> log_region ?st" using assms(2) by (simp add: home_ok_def)
  have bv: "blk v ?st = ?h"
    using v' u(2) installs_log [OF out log_region_block(2) order_refl] by (simp add: wrote_def)
  let ?w = "v\<lparr>lh_n := 0\<rparr>"
  have lw: "log_clear ?w" using lv(1) by (simp add: log_clear_def)
  from write_head_clear [OF lw] obtain x where x: "write_head ?w = Ok () x" "wrote [(?st, wr32 0 0 ?h)] ?w x"
    using lv lu bv by auto
  note lx = log_clear_wrote [OF lw x(2)]
  have "idle LogLock x" using assms(5) wrote_idle [OF u(2)] wrote_idle [OF v'] wrote_idle [OF x(2)] by simp
  then obtain t where t: "seq (acquire LogLock) (seq (modify (\<lambda>s. s\<lparr>lbusy := False\<rparr>)) (seq (wakeup ChLog) (release LogLock))) x = Ok () t"
    "\<not> lbusy t" "lh_n t = lh_n x" "memdisk t = memdisk x" "dwrites t = dwrites x" "pinned t = pinned x" "blk t = blk x"
    using end_trans [OF log_clear_start(1) [OF lx(1)]] by metis
  have "commit_trans s = Ok () t" using u(1) v(1) x(1) t(1) assms(3) by (simp add: commit_trans_def)
  moreover have "dwrites t = dwrites s @ commit_writes (memdisk s) ?st ?sec (lh_n s)"
    "memdisk t = apply_writes (memdisk s) (commit_writes (memdisk s) ?st ?sec (lh_n s))"
    "blk t = apply_writes (blk s) (commit_writes (memdisk s) ?st ?sec (lh_n s))"
    using t(4,5,7) x(2) v' u(2) by (simp_all add: wrote_def commit_writes_def)
  moreover have "pinned t = pinned s - ?sec ` {0..<?n}"
    using t(6) x(2) v' u(2) log_clear_start(6) [OF assms(1)] by (auto simp: wrote_def fst_installs)
  ultimately show ?thesis using t(2,3) lx(3) by simp
qed


lemma commit_writes_recovery:
  assumes "length (d st) = BSIZE" and "0 \<le> n" and "n \<le> int LOGSIZE"
  shows "commit_writes d st sec n = (st, enc_head n sec (d st)) # recovery_writes (d(st := enc_head n sec (d st))) st"
proof -
  have "installs st (head_sec (enc_head n sec (d st))) (d(st := enc_head n sec (d st))) (nat n) = installs st sec d (nat n)"
    using assms by (intro installs_cong) (auto simp: enc_head_read log_block_inj(2))
  then show ?thesis using assms by (simp add: commit_writes_def recovery_writes_def enc_head_read)
qed

text \<open>
  A transaction ready to commit: every modified block is logged, with its current content in its log block, once;
  the header on disk still says that there is nothing to recover.
\<close>

definition logged :: "'e klog_scheme \<Rightarrow> bool" where
  "logged s \<longleftrightarrow> log_clear s \<and> home_ok s (lh_sector s) (nat (lh_n s)) \<and> 0 < lh_n s \<and> lh_n s \<le> int LOGSIZE
     \<and> idle LogLock s \<and> length (memdisk s (lstart s)) = BSIZE \<and> head_n (memdisk s (lstart s)) = 0
     \<and> inj_on (lh_sector s) {0..<nat (lh_n s)} \<and> pinned s = lh_sector s ` {0..<nat (lh_n s)}
     \<and> (\<forall>i < nat (lh_n s). memdisk s (log_block (lstart s) i) = blk s (lh_sector s i))"

text \<open>A kernel that has just booted on the disk \<open>d\<close>.\<close>

definition booted :: "'e klog_scheme \<Rightarrow> (uint \<Rightarrow> uchar list) \<Rightarrow> uint \<Rightarrow> uint \<Rightarrow> bool" where
  "booted r d st cap \<longleftrightarrow> log_clear r \<and> held r = Map.empty \<and> memdisk r = d \<and> lstart r = st \<and> disksize r = cap"

lemma installs_value:
  assumes "inj_on sec {0..<k}" and "i < k"
  shows "apply_writes e (installs st sec d k) (sec i) = d (log_block st i)"
  using assms
proof (induction k)
  case (Suc k)
  have e: "installs st sec d (Suc k) = installs st sec d k @ [(sec k, d (log_block st k))]" by (simp add: installs_def)
  show ?case
  proof (cases "i = k")
    case True
    then show ?thesis by (simp add: e)
  next
    case False
    then have i: "i < k" using Suc.prems(2) by simp
    have "sec i \<noteq> sec k" using inj_onD [OF Suc.prems(1), of i k] i by auto
    moreover have "inj_on sec {0..<k}" by (rule inj_on_subset [OF Suc.prems(1)]) auto
    ultimately show ?thesis using Suc.IH i unfolding e by simp
  qed
qed simp

lemma commit_content:
  assumes "logged s" and "n \<notin> log_region (lstart s)" and "n \<notin> ran (held s)"
  shows "apply_writes (memdisk s) (commit_writes (memdisk s) (lstart s) (lh_sector s) (lh_n s)) n = blk s n"
proof -
  let ?is = "installs (lstart s) (lh_sector s) (memdisk s) (nat (lh_n s))"
  have ne: "n \<noteq> lstart s" using assms(2) log_region_block(2) by blast
  then have e: "apply_writes (memdisk s) (commit_writes (memdisk s) (lstart s) (lh_sector s) (lh_n s)) n =
      apply_writes ((memdisk s)(lstart s := enc_head (lh_n s) (lh_sector s) (memdisk s (lstart s)))) ?is n"
    by (simp add: commit_writes_def)
  show ?thesis
  proof (cases "n \<in> lh_sector s ` {0..<nat (lh_n s)}")
    case True
    then obtain i where "i < nat (lh_n s)" "n = lh_sector s i" by auto
    with assms(1) show ?thesis unfolding e by (simp add: installs_value logged_def)
  next
    case False
    then have "n \<notin> pinned s" using assms(1) by (simp add: logged_def)
    then have "blk s n = memdisk s n"
      using assms(1,3) by (intro clean_blk) (simp_all add: logged_def log_clear_def)
    then show ?thesis unfolding e using False ne by (simp add: apply_writes_other fst_installs)
  qed
qed



text \<open>\<open>log_write\<close>: the slot of the block, and the state after it.\<close>

lemma log_slot_cases:
  assumes "0 \<le> lh_n s"
  shows "(log_slot s m < nat (lh_n s) \<and> lh_sector s (log_slot s m) = m) \<or>
    (log_slot s m = nat (lh_n s) \<and> (\<forall>i < nat (lh_n s). lh_sector s i \<noteq> m))"
proof (cases "find (\<lambda>i. lh_sector s i = m) [0..<nat (lh_n s)]")
  case None
  then have "\<forall>i < nat (lh_n s). lh_sector s i \<noteq> m" by (simp add: find_None_iff)
  with None show ?thesis by (simp add: log_slot_def)
next
  case (Some i)
  with find_SomeD [OF Some] show ?thesis by (simp add: log_slot_def)
qed

lemma log_write_view:
  assumes "log_clear s" and "held s b = Some m" and "0 \<le> lh_n s" and "lh_n s < int LOGSIZE" and "lh_n s < lsize s - 1"
    and "lbusy s"
  shows "\<exists>t. log_write b s = Ok () t \<and> bcache_ok t \<and> held t = held s \<and> lstart t = lstart s \<and> lbusy t
    \<and> lh_sector t = (lh_sector s)(log_slot s m := m)
    \<and> lh_n t = (if log_slot s m = nat (lh_n s) then lh_n s + 1 else lh_n s)
    \<and> blk t = (blk s)(log_block (lstart s) (log_slot s m) := blk s m)
    \<and> memdisk t = (memdisk s)(log_block (lstart s) (log_slot s m) := blk s m)
    \<and> pinned t = insert m (pinned s) \<and> spare s \<le> spare t"
proof -
  let ?i = "log_slot s m" let ?l = "log_block (lstart s) ?i"
  have i: "?i < LOGSIZE" using log_slot_cases [OF assms(3), of m] assms(3,4) by (auto simp: nat_less_iff)
  have ok: "bcache_ok s" and r: "?l \<in> log_region (lstart s)" using assms(1) i by (simp_all add: log_clear_def log_region_block)
  note f = bcache_okD [OF ok assms(2)]
  have l: "?l \<notin> ran (held s)" "?l \<notin> pinned s" "0 < spare s" using assms(1) r by (auto simp: log_clear_def)
  have cap: "?l < disksize s" using assms(1) i by (intro log_block_cap) (simp_all add: log_clear_def)
  have ne: "?l \<noteq> m" using l(1) assms(2) by (auto intro: ranI)
  let ?s = "s\<lparr>lh_sector := (lh_sector s)(?i := m)\<rparr>"
  have ok': "bcache_ok ?s" "?l < disksize ?s" "?l \<notin> ran (held ?s)" "?l \<in> pinned ?s \<or> 0 < spare ?s"
    using ok cap l by simp_all
  obtain t where t: "bnd (bread 1 ?l) (\<lambda>b. seq (modify (\<lambda>s'. upd_buf b (\<lambda>bp. bp\<lparr>data := (\<lambda>_. blk s m) (data (bufs s' b))\<rparr>) s'))
      (seq (bwrite b) (brelse b))) ?s = Ok () t" and v: "bframe ?s t" "bcache_ok t" "held t = held ?s"
      "blk t = (blk ?s)(?l := blk s m)" "pinned t = pinned ?s - {?l}"
      "memdisk t = (memdisk ?s)(?l := blk s m)" "dwrites t = dwrites ?s @ [(?l, blk s m)]" "spare ?s \<le> spare t"
    by (rule bcache.poke_block [OF ok', of "\<lambda>_. blk s m"])
  obtain lb u where u: "bread 1 ?l ?s = Ok lb u" "bframe ?s u" "bcache_ok u" "held ?s lb = None" "held u = (held ?s)(lb \<mapsto> ?l)"
    "blk u = blk ?s" by (rule bread_view [OF ok'])
  have hu: "held u b = Some m" using u(4,5) assms(2) by auto
  have du: "data (bufs u b) = blk s m" using bcache_okD(8) [OF u(3) hu] u(6) by simp
  have body: "seq (modify (\<lambda>s'. upd_buf lb (\<lambda>bp. bp\<lparr>data := data (bufs s' b)\<rparr>) s')) (seq (bwrite lb) (brelse lb)) u = Ok () t"
    using t u(1) by (simp add: du)
  let ?t1 = "if ?i = nat (lh_n s) then t\<lparr>lh_n := lh_n t + 1\<rparr> else t"
  let ?t = "upd_buf b (\<lambda>bp. bp\<lparr>flags := flags bp OR B_DIRTY\<rparr>) ?t1"
  have e: "int ?i = lh_n s \<longleftrightarrow> ?i = nat (lh_n s)" using assms(3) by auto
  have w: "log_write b s = Ok () ?t"
  proof -
    have step: "seq (modify (\<lambda>s'. upd_buf lb (\<lambda>bp. bp\<lparr>data := data (bufs s' b)\<rparr>) s')) (seq (bwrite lb) (seq (brelse lb) R)) u = R t"
      for R :: "('a klog_scheme, unit) kop"
    proof -
      have "seq (seq (modify (\<lambda>s'. upd_buf lb (\<lambda>bp. bp\<lparr>data := data (bufs s' b)\<rparr>) s')) (seq (bwrite lb) (brelse lb))) R u = R t"
        by (subst seq_apply) (simp only: body res.case)
      then show ?thesis by (simp only: seq_assoc)
    qed
    have "lh_n t = lh_n s" using klog_frame(5) [OF v(1)] by simp
    moreover have "\<not> (int LOGSIZE \<le> lh_n s \<or> lsize s - 1 \<le> lh_n s)" using assms(4,5) by simp
    moreover have "bread 1 (lstart s + of_nat ?i + 1) ?s = Ok lb u" using u(1) by (simp only: log_block_def)
    ultimately show ?thesis
      using assms(6) f(4,5) e by (simp add: log_write_def step whenM_def)
  qed
  have k: "lstart t = lstart s" "lbusy t" "lh_n t = lh_n s" "lh_sector t = (lh_sector s)(?i := m)"
    using klog_frame [OF v(1)] assms(6) by simp_all
  have ht: "held ?t1 b = Some m" "bcache_ok ?t1" using v(2,3) assms(2) by simp_all
  note p = pin_view [OF ht(2,1)]
  have n: "lh_n ?t = (if ?i = nat (lh_n s) then lh_n s + 1 else lh_n s)" "lstart ?t = lstart s" "lbusy ?t"
    "lh_sector ?t = (lh_sector s)(?i := m)" using k by simp_all
  have q: "blk ?t = (blk s)(?l := blk s m)" "held ?t = held s" "pinned ?t = insert m (pinned s)" "spare s \<le> spare ?t"
    using p(2-5) v(3,4,5,8) l(2) by (simp_all split: if_splits)
  have d: "memdisk ?t = (memdisk s)(?l := blk s m)" using v(6) by simp
  show ?thesis by (intro exI [of _ ?t] conjI w p(1) n q d)
qed




section \<open>A concrete transaction\<close>

text \<open>Block 500 holds new content in the cache and in the first log block; the log starts at block 1000.\<close>

definition ex_fill :: "uchar list" where
  "ex_fill = replicate BSIZE 7"

definition ex_disk_ext :: "'e \<Rightarrow> 'e klog_scheme" where
  "ex_disk_ext r = (ex_bio_ext (klog_ext 1000 20 True 1 1 (\<lambda>_. 500) r))
     \<lparr>memdisk := (\<lambda>_. replicate BSIZE 0)(1001 := ex_fill)\<rparr>"

definition ex_log_ext :: "'e \<Rightarrow> 'e klog_scheme" where
  "ex_log_ext r = upd_buf 0 (\<lambda>bp. bp\<lparr>flags := B_VALID OR B_DIRTY, dev := 1, sector := 500, data := ex_fill\<rparr>) (ex_disk_ext r)"

lemma ex_disk_simps [simp]:
  "lstart (ex_disk_ext r) = 1000" "lsize (ex_disk_ext r) = 20" "lbusy (ex_disk_ext r)" "ldev (ex_disk_ext r) = 1"
  "lh_n (ex_disk_ext r) = 1" "lh_sector (ex_disk_ext r) = (\<lambda>_. 500)" "disksize (ex_disk_ext r) = 1024"
  "memdisk (ex_disk_ext r) = (\<lambda>_. replicate BSIZE 0)(1001 := ex_fill)" "idle lk (ex_disk_ext r)" "cli_wf (ex_disk_ext r)"
  "bufs (ex_disk_ext r) = bufs (ex_bio_ext ())"
  by (simp_all add: ex_disk_ext_def ex_bio_ext_def idle_def cli_wf_def mycpu_def quiet_core_def)

lemma ex_disk_ring: "ring (ex_disk_ext r) [0..<NBUF]"
  using ex_bio_ring by (simp add: ex_disk_ext_def)

lemma ex_disk_cache:
  "bcache_ok (ex_disk_ext r)" "spare (ex_disk_ext r) = NBUF" "held (ex_disk_ext r) = Map.empty" "pinned (ex_disk_ext r) = {}"
  "blk (ex_disk_ext r) = memdisk (ex_disk_ext r)"
  by (rule unused_cache [OF ex_disk_ring]; simp add: ex_bio_ext_def)+

lemma ex_disk_bcwf: "bc_wf (ex_disk_ext r) [0..<NBUF]" "\<not> holds (ex_disk_ext r) n b"
  using ex_disk_ring [of r] by (simp_all add: bc_wf_def holds_def ex_bio_ext_def)

lemma ex_log_cache:
  "bcache_ok (ex_log_ext r)" "spare (ex_log_ext r) = 9" "held (ex_log_ext r) = Map.empty" "pinned (ex_log_ext r) = {500}"
  "blk (ex_log_ext r) = (memdisk (ex_disk_ext r))(500 := ex_fill)"
proof -
  let ?s = "ex_disk_ext r"
  let ?bp = "(bufs ?s 0)\<lparr>flags := B_VALID OR B_DIRTY, dev := 1, sector := 500, data := ex_fill\<rparr>"
  have e: "ex_log_ext r = ?s\<lparr>bufs := (bufs ?s)(0 := ?bp)\<rparr>" by (simp add: ex_log_ext_def upd_buf_def)
  have b: "(0::nat) < NBUF" by (simp add: NBUF_def)
  have f: "valid ?bp" "dirty ?bp" "\<not> busy ?bp" "\<not> busy (bufs ?s 0)" "\<not> dirty (bufs ?s 0)"
    by (simp_all add: flag_bits bit_simps flag_consts) (simp_all add: ex_bio_ext_def)
  have "bc_wf (ex_log_ext r) [0..<NBUF]"
    unfolding e by (rule bc_wf_upd [OF ex_disk_bcwf(1)]) (simp_all add: b ex_disk_bcwf(2) flag_bits bit_simps flag_consts)
  moreover have "\<not> busy (bufs (ex_log_ext r) c)" for c
    using f(3) by (simp add: e) (simp add: ex_bio_ext_def busy_def)
  ultimately show "bcache_ok (ex_log_ext r)" unfolding bcache_ok_def bc_ready_def by (auto simp: e)
  show "spare (ex_log_ext r) = 9"
    using spare_upd [OF b, of ?s ?bp] f ex_disk_cache(2) [of r] unfolding e by (simp add: NBUF_def)
  show "held (ex_log_ext r) = Map.empty" using held_upd [OF b, of ?s ?bp] f(3) ex_disk_cache(3) [of r] unfolding e by simp
  show "pinned (ex_log_ext r) = {500}"
    unfolding e by (subst pinned_upd [OF b]) (simp_all add: ex_disk_cache(4) ex_disk_bcwf(2) flag_bits bit_simps flag_consts)
  show "blk (ex_log_ext r) = (memdisk ?s)(500 := ex_fill)"
    unfolding e by (subst blk_upd [OF ex_disk_bcwf(1) b]) (simp_all add: ex_disk_cache(5) ex_disk_bcwf(2))
qed


lemma ex_log_simps [simp]:
  "lstart (ex_log_ext r) = 1000" "lsize (ex_log_ext r) = 20" "lbusy (ex_log_ext r)" "ldev (ex_log_ext r) = 1"
  "lh_n (ex_log_ext r) = 1" "lh_sector (ex_log_ext r) = (\<lambda>_. 500)" "disksize (ex_log_ext r) = 1024"
  "memdisk (ex_log_ext r) = (\<lambda>_. replicate BSIZE 0)(1001 := ex_fill)" "idle lk (ex_log_ext r)"
  by (simp_all add: ex_log_ext_def)

lemma log_region_1000: "log_region 1000 = {1000, 1001, 1002, 1003, 1004, 1005, 1006, 1007, 1008, 1009, 1010}"
  by (auto simp: log_region_def log_block_def LOGSIZE_def atLeast0_lessThan_Suc eval_nat_numeral)

lemma ex_log_logged: "logged (ex_log_ext r)"
proof -
  have "head_n (replicate BSIZE 0) = 0" by (simp add: head_n_def rd32_def BSIZE_def)
  then show ?thesis
    by (simp add: logged_def log_clear_def home_ok_def ex_log_cache log_region_1000 log_block_def inj_on_def LOGSIZE_def)
qed



text \<open>Block 500 again, now held by the process that logs it.\<close>

definition ex_hold :: klog where
  "ex_hold = upd_buf 0 (\<lambda>bp. bp\<lparr>flags := B_BUSY OR B_VALID OR B_DIRTY\<rparr>) (ex_log_ext ())"

lemma ex_hold_cache [simp]:
  "bcache_ok ex_hold" "spare ex_hold = 9" "held ex_hold = [0 \<mapsto> 500]" "pinned ex_hold = {500}"
  "lstart ex_hold = 1000" "ldev ex_hold = 1" "disksize ex_hold = 1024"
proof -
  let ?s = "ex_log_ext ()"
  let ?bp = "(bufs ?s 0)\<lparr>flags := B_BUSY OR B_VALID OR B_DIRTY\<rparr>"
  have e: "ex_hold = ?s\<lparr>bufs := (bufs ?s)(0 := ?bp)\<rparr>" by (simp add: ex_hold_def upd_buf_def)
  have b: "(0::nat) < NBUF" by (simp add: NBUF_def)
  have s0: "dev (bufs ?s 0) = 1" "sector (bufs ?s 0) = 500" "dirty (bufs ?s 0)" "\<not> busy (bufs ?s 0)"
    by (simp_all add: ex_log_ext_def flag_bits bit_simps flag_consts)
  have nb: "\<not> busy (bufs ?s c)" if "c < NBUF" for c
    using ex_log_cache(3) [of "()"] that by (auto simp: held_def fun_eq_iff split: if_splits)
  from ex_log_cache(1) [of "()"] obtain xs where rdy: "bc_ready ?s xs" unfolding bcache_ok_def by blast
  then have wf: "bc_wf ?s xs" by (simp add: bc_ready_def)
  have h0: "holds ?s 500 0" using s0 by (simp add: holds_def)
  have u: "c = 0" if "c < NBUF" "holds ?s 500 c" for c using bc_wfD(2) [OF wf that(1) b that(2) h0] .
  have "bc_wf ex_hold xs" unfolding e
    by (rule bc_wf_upd [OF wf]) (use s0 b u in \<open>auto simp: flag_bits bit_simps flag_consts\<close>)
  then show "bcache_ok ex_hold" using rdy nb s0(1) unfolding bcache_ok_def bc_ready_def by (auto simp: e)
  show "spare ex_hold = 9"
    using spare_upd [OF b, of ?s ?bp] s0(3) ex_log_cache(2) [of "()"] unfolding e
    by (simp add: flag_bits bit_simps flag_consts)
  show "held ex_hold = [0 \<mapsto> 500]"
    using held_upd [OF b, of ?s ?bp] s0(2) ex_log_cache(3) [of "()"] unfolding e by (simp add: flag_bits bit_simps flag_consts)
  show "pinned ex_hold = {500}"
    unfolding e by (subst pinned_upd [OF b]) (use s0 u ex_log_cache(4) [of "()"] in \<open>auto simp: flag_bits bit_simps flag_consts holds_def\<close>)
  show "lstart ex_hold = 1000" "ldev ex_hold = 1" "disksize ex_hold = 1024" by (simp_all add: ex_hold_def)
qed


end
