(* ===== verification/Fs.thy ===== *)
theory Fs
  imports Log
begin

unbundle bit_operations_syntax

text \<open>
  fs.c: block allocation, inodes and their cache, file contents, directories and path names,
  over the log and the buffer cache.

  Inodes are named by their index in \<open>icache.inode\<close>.  Path names and directory entry names are
  lists of bytes without the terminating NUL.  Operations that copy to a caller's buffer
  return the bytes; operations that copy from one take them as an argument.  \<open>devsw\<close>, the
  table of device functions, is an argument of the operations that call through it.
\<close>

section \<open>On-disk format (fs.h, stat.h)\<close>

definition ROOTINO :: uint where "ROOTINO = 1"
definition NDIRECT :: nat where "NDIRECT = 12"
definition NINDIRECT :: nat where "NINDIRECT = BSIZE div 4"
definition MAXFILE :: nat where "MAXFILE = NDIRECT + NINDIRECT"
definition DINODE_SIZE :: nat where "DINODE_SIZE = 12 + 4 * (NDIRECT + 1)"
definition IPB :: nat where "IPB = BSIZE div DINODE_SIZE"
definition BPB :: nat where "BPB = BSIZE * 8"
definition DIRSIZ :: nat where "DIRSIZ = 14"
definition DIRENT_SIZE :: nat where "DIRENT_SIZE = 2 + DIRSIZ"

lemmas fs_params = ROOTINO_def NDIRECT_def NINDIRECT_def MAXFILE_def DINODE_SIZE_def IPB_def BPB_def
  DIRSIZ_def DIRENT_SIZE_def BSIZE_def

definition IBLOCK :: "uint \<Rightarrow> uint" where
  "IBLOCK i = i div of_nat IPB + 2"

definition BBLOCK :: "uint \<Rightarrow> uint \<Rightarrow> uint" where
  "BBLOCK b ninodes = b div of_nat BPB + ninodes div of_nat IPB + 3"

definition T_DIR :: ushort where "T_DIR = 1"
definition T_FILE :: ushort where "T_FILE = 2"
definition T_DEV :: ushort where "T_DEV = 3"

record dinode =
  di_type :: ushort
  di_major :: ushort
  di_minor :: ushort
  di_nlink :: ushort
  di_size :: uint
  di_addrs :: "uint list"

definition dec_dinode :: "uchar list \<Rightarrow> nat \<Rightarrow> dinode" where
  "dec_dinode xs p = \<lparr>di_type = rd16 xs p, di_major = rd16 xs (p + 2), di_minor = rd16 xs (p + 4),
     di_nlink = rd16 xs (p + 6), di_size = rd32 xs (p + 8),
     di_addrs = map (\<lambda>i. rd32 xs (p + 12 + 4 * i)) [0..<NDIRECT + 1]\<rparr>"

definition enc_addrs :: "nat \<Rightarrow> uint list \<Rightarrow> uchar list \<Rightarrow> uchar list" where
  "enc_addrs p as xs = fold (\<lambda>i. wr32 (p + 4 * i) (as ! i)) [0..<length as] xs"

definition enc_dinode :: "nat \<Rightarrow> dinode \<Rightarrow> uchar list \<Rightarrow> uchar list" where
  "enc_dinode p d xs =
     enc_addrs (p + 12) (di_addrs d) (wr32 (p + 8) (di_size d) (wr16 (p + 6) (di_nlink d)
       (wr16 (p + 4) (di_minor d) (wr16 (p + 2) (di_major d) (wr16 p (di_type d) xs)))))"

section \<open>State\<close>

definition I_BUSY :: uint where "I_BUSY = 1"
definition I_VALID :: uint where "I_VALID = 2"

record inode =
  idev :: uint
  inum :: uint
  iref :: int
  iflags :: uint
  itype :: ushort
  major :: ushort
  minor :: ushort
  nlink :: ushort
  isize :: uint
  addrs :: "uint list"

record kfs = klog +
  inodes :: "nat \<Rightarrow> inode"

definition upd_inode :: "nat \<Rightarrow> (inode \<Rightarrow> inode) \<Rightarrow> 'e kfs_scheme \<Rightarrow> 'e kfs_scheme" where
  "upd_inode i f s = s\<lparr>inodes := (inodes s)(i := f (inodes s i))\<rparr>"

text \<open>\<open>struct devsw\<close>: a device reads \<open>n\<close> bytes, or writes the given ones; \<open>None\<close> is a null pointer.\<close>

record 's devsw =
  dev_read :: "nat \<Rightarrow> (nat \<Rightarrow> int \<Rightarrow> ('s, int \<times> uchar list) kop) option"
  dev_write :: "nat \<Rightarrow> (nat \<Rightarrow> uchar list \<Rightarrow> ('s, int) kop) option"

section \<open>Blocks\<close>

definition bzero :: "uint \<Rightarrow> uint \<Rightarrow> ('e klog_scheme, unit) kop" where
  "bzero d bno =
     bnd (bread d bno) (\<lambda>bp.
     seq (modify (upd_buf bp (\<lambda>b. b\<lparr>data := replicate BSIZE 0\<rparr>)))
     (seq (log_write bp)
          (brelse bp)))"

definition bit_mask :: "nat \<Rightarrow> uchar" where
  "bit_mask bi = push_bit (bi mod 8) 1"

definition free_bit :: "uchar list \<Rightarrow> nat \<Rightarrow> nat \<Rightarrow> nat option" where
  "free_bit xs b nblk =
     find (\<lambda>bi. b + bi < nblk \<and> xs ! (bi div 8) AND bit_mask bi = 0) [0..<BPB]"

definition balloc :: "uint \<Rightarrow> ('e klog_scheme, uint) kop" where
  "balloc d =
     bnd (readsb d) (\<lambda>sb.
     bnd (loopE (map (\<lambda>k. k * BPB) [0..<(unat (sb_size sb) + BPB - 1) div BPB]) (\<lambda>b.
       bnd (bread d (BBLOCK (of_nat b) (sb_ninodes sb))) (\<lambda>bp.
       bnd (gets (\<lambda>s. free_bit (data (bufs s bp)) b (unat (sb_size sb)))) (\<lambda>found.
       case found of
         Some bi \<Rightarrow>
           seq (modify (upd_buf bp (\<lambda>p. p\<lparr>data :=
                  (data p)[bi div 8 := data p ! (bi div 8) OR bit_mask bi]\<rparr>)))
           (seq (log_write bp)
           (seq (brelse bp)
           (seq (bzero d (of_nat (b + bi)))
                (ret (Some (of_nat (b + bi)))))))
       | None \<Rightarrow> seq (brelse bp) (ret None))))) (\<lambda>r.
     case r of Some a \<Rightarrow> ret a | None \<Rightarrow> panic ''balloc: out of blocks''))"

definition bfree :: "uint \<Rightarrow> uint \<Rightarrow> ('e klog_scheme, unit) kop" where
  "bfree d b =
     bnd (readsb d) (\<lambda>sb.
     bnd (bread d (BBLOCK b (sb_ninodes sb))) (\<lambda>bp.
     let bi = unat b mod BPB in
     bnd (gets (\<lambda>s. data (bufs s bp) ! (bi div 8))) (\<lambda>x.
     if x AND bit_mask bi = 0 then panic ''freeing free block''
     else
       seq (modify (upd_buf bp (\<lambda>p. p\<lparr>data := (data p)[bi div 8 := data p ! (bi div 8) AND NOT (bit_mask bi)]\<rparr>)))
       (seq (log_write bp)
            (brelse bp)))))"

section \<open>Inodes\<close>

definition iinit :: "('e kfs_scheme, unit) kop" where
  "iinit = initlock IcacheLock ''icache''"

definition dinode_off :: "uint \<Rightarrow> nat" where
  "dinode_off i = DINODE_SIZE * (unat i mod IPB)"

definition iget :: "uint \<Rightarrow> uint \<Rightarrow> ('e kfs_scheme, nat) kop" where
  "iget d n =
     seq (acquire IcacheLock)
     (bnd (gets inodes) (\<lambda>tab.
      case find (\<lambda>i. iref (tab i) > 0 \<and> idev (tab i) = d \<and> inum (tab i) = n) [0..<NINODE] of
        Some ip \<Rightarrow>
          seq (modify (upd_inode ip (\<lambda>i. i\<lparr>iref := iref i + 1\<rparr>)))
          (seq (release IcacheLock) (ret ip))
      | None \<Rightarrow>
          (case find (\<lambda>i. iref (tab i) = 0) [0..<NINODE] of
             None \<Rightarrow> panic ''iget: no inodes''
           | Some ip \<Rightarrow>
               seq (modify (upd_inode ip (\<lambda>i. i\<lparr>idev := d, inum := n, iref := 1, iflags := 0\<rparr>)))
               (seq (release IcacheLock) (ret ip)))))"

definition ialloc :: "uint \<Rightarrow> ushort \<Rightarrow> ('e kfs_scheme, nat) kop" where
  "ialloc d ty =
     bnd (readsb d) (\<lambda>sb.
     bnd (loopE [1..<unat (sb_ninodes sb)] (\<lambda>n.
       bnd (bread d (IBLOCK (of_nat n))) (\<lambda>bp.
       bnd (gets (\<lambda>s. rd16 (data (bufs s bp)) (dinode_off (of_nat n)))) (\<lambda>t.
       if t = 0 then
         seq (modify (upd_buf bp (\<lambda>p. p\<lparr>data :=
                wr16 (dinode_off (of_nat n)) ty
                  (put_at (dinode_off (of_nat n)) (replicate DINODE_SIZE 0) (data p))\<rparr>)))
         (seq (log_write bp)
         (seq (brelse bp)
         (bnd (iget d (of_nat n)) (\<lambda>ip. ret (Some ip)))))
       else seq (brelse bp) (ret None))))) (\<lambda>r.
     case r of Some ip \<Rightarrow> ret ip | None \<Rightarrow> panic ''ialloc: no inodes''))"

definition iupdate :: "nat \<Rightarrow> ('e kfs_scheme, unit) kop" where
  "iupdate ip =
     bnd (gets (\<lambda>s. inodes s ip)) (\<lambda>i.
     bnd (bread (idev i) (IBLOCK (inum i))) (\<lambda>bp.
     seq (modify (upd_buf bp (\<lambda>p. p\<lparr>data := enc_dinode (dinode_off (inum i))
            \<lparr>di_type = itype i, di_major = major i, di_minor = minor i, di_nlink = nlink i,
             di_size = isize i, di_addrs = addrs i\<rparr> (data p)\<rparr>)))
     (seq (log_write bp)
          (brelse bp))))"

definition idup :: "nat \<Rightarrow> ('e kfs_scheme, nat) kop" where
  "idup ip =
     seq (acquire IcacheLock)
     (seq (modify (upd_inode ip (\<lambda>i. i\<lparr>iref := iref i + 1\<rparr>)))
     (seq (release IcacheLock)
          (ret ip)))"

text \<open>
  \<open>ilock\<close>: the loop that waits for \<open>I_BUSY\<close>, then reading the inode.  The null test of the
  argument is left to the callers, which pass an index.
\<close>

definition ilock_load :: "nat \<Rightarrow> ('e kfs_scheme, unit) kop" where
  "ilock_load ip =
     bnd (gets (\<lambda>s. inodes s ip)) (\<lambda>i.
     if iflags i AND I_VALID \<noteq> 0 then ret ()
     else
       bnd (bread (idev i) (IBLOCK (inum i))) (\<lambda>bp.
       bnd (gets (\<lambda>s. dec_dinode (data (bufs s bp)) (dinode_off (inum i)))) (\<lambda>dip.
       seq (modify (upd_inode ip (\<lambda>i. i\<lparr>itype := di_type dip, major := di_major dip,
              minor := di_minor dip, nlink := di_nlink dip, isize := di_size dip,
              addrs := di_addrs dip\<rparr>)))
       (seq (brelse bp)
       (seq (modify (upd_inode ip (\<lambda>i. i\<lparr>iflags := iflags i OR I_VALID\<rparr>)))
       (if di_type dip = 0 then panic ''ilock: no type'' else ret ()))))))"

definition ilock_loop :: "nat \<Rightarrow> ('e kfs_scheme, unit) kop" where
  "ilock_loop ip =
     bnd (gets (\<lambda>s. iflags (inodes s ip))) (\<lambda>fl.
     if fl AND I_BUSY \<noteq> 0 then sleep (ChInode ip) IcacheLock
     else
       seq (modify (upd_inode ip (\<lambda>i. i\<lparr>iflags := iflags i OR I_BUSY\<rparr>)))
       (seq (release IcacheLock)
            (ilock_load ip)))"

definition ilock_resume :: "nat \<Rightarrow> ('e kfs_scheme, unit) kop" where
  "ilock_resume ip = seq (sleep_tail IcacheLock) (ilock_loop ip)"

definition ilock :: "nat \<Rightarrow> ('e kfs_scheme, unit) kop" where
  "ilock ip =
     bnd (gets (\<lambda>s. iref (inodes s ip))) (\<lambda>r.
     if r < 1 then panic ''ilock''
     else seq (acquire IcacheLock) (ilock_loop ip))"

definition iunlock :: "nat \<Rightarrow> ('e kfs_scheme, unit) kop" where
  "iunlock ip =
     bnd (gets (\<lambda>s. inodes s ip)) (\<lambda>i.
     if iflags i AND I_BUSY = 0 \<or> iref i < 1 then panic ''iunlock''
     else
       seq (acquire IcacheLock)
       (seq (modify (upd_inode ip (\<lambda>i. i\<lparr>iflags := iflags i AND NOT I_BUSY\<rparr>)))
       (seq (wakeup (ChInode ip))
            (release IcacheLock))))"

section \<open>File contents\<close>

definition bmap :: "nat \<Rightarrow> nat \<Rightarrow> ('e kfs_scheme, uint) kop" where
  "bmap ip bn =
     bnd (gets (\<lambda>s. idev (inodes s ip))) (\<lambda>d.
     if bn < NDIRECT then
       bnd (gets (\<lambda>s. addrs (inodes s ip) ! bn)) (\<lambda>a.
       if a = 0 then
         bnd (balloc d) (\<lambda>a.
         seq (modify (upd_inode ip (\<lambda>i. i\<lparr>addrs := (addrs i)[bn := a]\<rparr>))) (ret a))
       else ret a)
     else if bn - NDIRECT < NINDIRECT then
       bnd (gets (\<lambda>s. addrs (inodes s ip) ! NDIRECT)) (\<lambda>a.
       bnd (if a = 0 then
              bnd (balloc d) (\<lambda>a.
              seq (modify (upd_inode ip (\<lambda>i. i\<lparr>addrs := (addrs i)[NDIRECT := a]\<rparr>))) (ret a))
            else ret a) (\<lambda>ind.
       bnd (bread d ind) (\<lambda>bp.
       bnd (gets (\<lambda>s. rd32 (data (bufs s bp)) (4 * (bn - NDIRECT)))) (\<lambda>a.
       bnd (if a = 0 then
              bnd (balloc d) (\<lambda>a.
              seq (modify (upd_buf bp (\<lambda>p. p\<lparr>data := wr32 (4 * (bn - NDIRECT)) a (data p)\<rparr>)))
              (seq (log_write bp) (ret a)))
            else ret a) (\<lambda>a.
       seq (brelse bp) (ret a))))))
     else panic ''bmap: out of range'')"

definition itrunc :: "nat \<Rightarrow> ('e kfs_scheme, unit) kop" where
  "itrunc ip =
     bnd (gets (\<lambda>s. idev (inodes s ip))) (\<lambda>d.
     seq (forM [0..<NDIRECT] (\<lambda>i.
            bnd (gets (\<lambda>s. addrs (inodes s ip) ! i)) (\<lambda>a.
            whenM (a \<noteq> 0)
              (seq (bfree d a)
                   (modify (upd_inode ip (\<lambda>n. n\<lparr>addrs := (addrs n)[i := 0]\<rparr>)))))))
     (seq (bnd (gets (\<lambda>s. addrs (inodes s ip) ! NDIRECT)) (\<lambda>ind.
           whenM (ind \<noteq> 0)
             (bnd (bread d ind) (\<lambda>bp.
              seq (forM [0..<NINDIRECT] (\<lambda>j.
                     bnd (gets (\<lambda>s. rd32 (data (bufs s bp)) (4 * j))) (\<lambda>a.
                     whenM (a \<noteq> 0) (bfree d a))))
              (seq (brelse bp)
              (seq (bfree d ind)
                   (modify (upd_inode ip (\<lambda>n. n\<lparr>addrs := (addrs n)[NDIRECT := 0]\<rparr>)))))))))
     (seq (modify (upd_inode ip (\<lambda>n. n\<lparr>isize := 0\<rparr>)))
          (iupdate ip))))"

definition iput :: "nat \<Rightarrow> ('e kfs_scheme, unit) kop" where
  "iput ip =
     seq (acquire IcacheLock)
     (bnd (gets (\<lambda>s. inodes s ip)) (\<lambda>i.
      seq (if iref i = 1 \<and> iflags i AND I_VALID \<noteq> 0 \<and> nlink i = 0 then
             if iflags i AND I_BUSY \<noteq> 0 then panic ''iput busy''
             else
               seq (modify (upd_inode ip (\<lambda>i. i\<lparr>iflags := iflags i OR I_BUSY\<rparr>)))
               (seq (release IcacheLock)
               (seq (itrunc ip)
               (seq (modify (upd_inode ip (\<lambda>i. i\<lparr>itype := 0\<rparr>)))
               (seq (iupdate ip)
               (seq (acquire IcacheLock)
               (seq (modify (upd_inode ip (\<lambda>i. i\<lparr>iflags := 0\<rparr>)))
                    (wakeup (ChInode ip))))))))
           else ret ())
      (seq (modify (upd_inode ip (\<lambda>i. i\<lparr>iref := iref i - 1\<rparr>)))
           (release IcacheLock))))"

definition iunlockput :: "nat \<Rightarrow> ('e kfs_scheme, unit) kop" where
  "iunlockput ip = seq (iunlock ip) (iput ip)"

record stat =
  st_type :: ushort
  st_dev :: uint
  st_ino :: uint
  st_nlink :: ushort
  st_size :: uint

definition stati :: "nat \<Rightarrow> ('e kfs_scheme, stat) kop" where
  "stati ip = gets (\<lambda>s. let i = inodes s ip in
     \<lparr>st_type = itype i, st_dev = idev i, st_ino = inum i, st_nlink = nlink i, st_size = isize i\<rparr>)"

text \<open>
  The loops of \<open>readi\<close> and \<open>writei\<close>.  The bounds tested before them keep \<open>off + n\<close> below
  \<open>2 ^ 32\<close>, so offset and count are natural numbers.
\<close>

function readi_loop :: "nat \<Rightarrow> nat \<Rightarrow> nat \<Rightarrow> ('e kfs_scheme, uchar list) kop" where
  "readi_loop ip off n =
     (if n = 0 then ret []
      else
        let m = min n (BSIZE - off mod BSIZE) in
        bnd (bmap ip (off div BSIZE)) (\<lambda>a.
        bnd (gets (\<lambda>s. idev (inodes s ip))) (\<lambda>d.
        bnd (bread d a) (\<lambda>bp.
        bnd (gets (\<lambda>s. get_at (off mod BSIZE) m (data (bufs s bp)))) (\<lambda>chunk.
        seq (brelse bp)
        (bnd (readi_loop ip (off + m) (n - m)) (\<lambda>rest.
         ret (chunk @ rest))))))))"
  by pat_completeness auto

termination
  by (relation "measure (\<lambda>(ip, off, n). n)") (auto simp: BSIZE_def min_def not_le)

declare readi_loop.simps [simp del]

definition readi :: "'e kfs_scheme devsw \<Rightarrow> nat \<Rightarrow> uint \<Rightarrow> uint \<Rightarrow> ('e kfs_scheme, int \<times> uchar list) kop" where
  "readi dv ip off n =
     bnd (gets (\<lambda>s. inodes s ip)) (\<lambda>i.
     if itype i = T_DEV then
       if sint (major i) < 0 \<or> sint (major i) \<ge> int NDEV then ret (- 1, [])
       else (case dev_read dv (unat (major i)) of None \<Rightarrow> ret (- 1, []) | Some f \<Rightarrow> f ip (sint n))
     else if off > isize i \<or> off + n < off then ret (- 1, [])
     else
       let n' = (if off + n > isize i then isize i - off else n) in
       bnd (readi_loop ip (unat off) (unat n')) (\<lambda>bytes. ret (sint n', bytes)))"

function writei_loop :: "nat \<Rightarrow> uchar list \<Rightarrow> nat \<Rightarrow> ('e kfs_scheme, unit) kop" where
  "writei_loop ip src off =
     (if src = [] then ret ()
      else
        let m = min (length src) (BSIZE - off mod BSIZE) in
        bnd (bmap ip (off div BSIZE)) (\<lambda>a.
        bnd (gets (\<lambda>s. idev (inodes s ip))) (\<lambda>d.
        bnd (bread d a) (\<lambda>bp.
        seq (modify (upd_buf bp (\<lambda>p. p\<lparr>data := put_at (off mod BSIZE) (take m src) (data p)\<rparr>)))
        (seq (log_write bp)
        (seq (brelse bp)
             (writei_loop ip (drop m src) (off + m))))))))"
  by pat_completeness auto

termination
  by (relation "measure (\<lambda>(ip, src, off). length src)") (auto simp: BSIZE_def min_def not_le)

declare writei_loop.simps [simp del]

definition writei :: "'e kfs_scheme devsw \<Rightarrow> nat \<Rightarrow> uchar list \<Rightarrow> uint \<Rightarrow> ('e kfs_scheme, int) kop" where
  "writei dv ip src off =
     (let n = of_nat (length src) in
      bnd (gets (\<lambda>s. inodes s ip)) (\<lambda>i.
      if itype i = T_DEV then
        if sint (major i) < 0 \<or> sint (major i) \<ge> int NDEV then ret (- 1)
        else (case dev_write dv (unat (major i)) of None \<Rightarrow> ret (- 1) | Some f \<Rightarrow> f ip src)
      else if off > isize i \<or> off + n < off then ret (- 1)
      else if off + n > of_nat (MAXFILE * BSIZE) then ret (- 1)
      else
        seq (writei_loop ip src (unat off))
        (bnd (gets (\<lambda>s. isize (inodes s ip))) (\<lambda>sz.
         seq (whenM (n > 0 \<and> off + n > sz)
                (seq (modify (upd_inode ip (\<lambda>i. i\<lparr>isize := off + n\<rparr>)))
                     (iupdate ip)))
             (ret (sint n))))))"

section \<open>Directories\<close>

definition cstr :: "uchar list \<Rightarrow> nat \<Rightarrow> uchar" where
  "cstr xs i = (if i < length xs then xs ! i else 0)"

definition namecmp :: "uchar list \<Rightarrow> uchar list \<Rightarrow> int" where
  "namecmp s t = strncmp (cstr s) (cstr t) DIRSIZ"

definition de_inum :: "uchar list \<Rightarrow> ushort" where
  "de_inum de = rd16 de 0"

definition de_name :: "uchar list \<Rightarrow> uchar list" where
  "de_name de = get_at 2 DIRSIZ de"

text \<open>\<open>strncpy(de.name, name, DIRSIZ); de.inum = inum\<close>.\<close>

definition mk_dirent :: "uchar list \<Rightarrow> uint \<Rightarrow> uchar list" where
  "mk_dirent name n = wr16 0 (ucast n) (replicate 2 0 @ map (cstr name) [0..<DIRSIZ])"

definition dir_offsets :: "uint \<Rightarrow> nat list" where
  "dir_offsets n = map (\<lambda>k. DIRENT_SIZE * k) [0..<(unat n + DIRENT_SIZE - 1) div DIRENT_SIZE]"

definition read_dirent :: "'e kfs_scheme devsw \<Rightarrow> nat \<Rightarrow> nat \<Rightarrow> ('e kfs_scheme, uchar list) kop" where
  "read_dirent dv dp off =
     bnd (readi dv dp (of_nat off) (of_nat DIRENT_SIZE)) (\<lambda>(r, de).
     if r \<noteq> int DIRENT_SIZE then panic ''dirlink read'' else ret de)"

definition dirlookup ::
  "'e kfs_scheme devsw \<Rightarrow> nat \<Rightarrow> uchar list \<Rightarrow> ('e kfs_scheme, (nat \<times> uint) option) kop" where
  "dirlookup dv dp name =
     bnd (gets (\<lambda>s. inodes s dp)) (\<lambda>i.
     if itype i \<noteq> T_DIR then panic ''dirlookup not DIR''
     else
       loopE (dir_offsets (isize i)) (\<lambda>off.
         bnd (read_dirent dv dp off) (\<lambda>de.
         if de_inum de = 0 then ret None
         else if namecmp name (de_name de) = 0 then
           bnd (iget (idev i) (ucast (de_inum de))) (\<lambda>ip. ret (Some (ip, of_nat off)))
         else ret None)))"

definition dirlink :: "'e kfs_scheme devsw \<Rightarrow> nat \<Rightarrow> uchar list \<Rightarrow> uint \<Rightarrow> ('e kfs_scheme, int) kop" where
  "dirlink dv dp name n =
     bnd (dirlookup dv dp name) (\<lambda>found.
     case found of
       Some (ip, _) \<Rightarrow> seq (iput ip) (ret (- 1))
     | None \<Rightarrow>
         bnd (gets (\<lambda>s. isize (inodes s dp))) (\<lambda>sz.
         bnd (loopE (dir_offsets sz) (\<lambda>off.
                bnd (read_dirent dv dp off) (\<lambda>de.
                ret (if de_inum de = 0 then Some off else None)))) (\<lambda>slot.
         let off = (case slot of Some off \<Rightarrow> off | None \<Rightarrow> DIRENT_SIZE * length (dir_offsets sz)) in
         bnd (writei dv dp (mk_dirent name n) (of_nat off)) (\<lambda>r.
         if r \<noteq> int DIRENT_SIZE then panic ''dirlink'' else ret 0))))"

section \<open>Paths\<close>

definition slash :: uchar where "slash = 47"

text \<open>
  \<open>skipelem path\<close> is \<open>None\<close> for the null result, otherwise the rest of the path and the content
  of \<open>name\<close>, of which at most \<open>DIRSIZ\<close> bytes are copied.
\<close>

definition skipelem :: "uchar list \<Rightarrow> (uchar list \<times> uchar list) option" where
  "skipelem path =
     (let p = dropWhile (\<lambda>c. c = slash) path in
      if p = [] then None
      else
        let elem = takeWhile (\<lambda>c. c \<noteq> slash) p; rest = dropWhile (\<lambda>c. c \<noteq> slash) p in
        Some (dropWhile (\<lambda>c. c = slash) rest, take DIRSIZ elem))"

lemma skipelem_shorter: "skipelem path = Some (rest, name) \<Longrightarrow> length rest < length path"
proof -
  assume s: "skipelem path = Some (rest, name)"
  let ?p = "dropWhile (\<lambda>c. c = slash) path"
  from s have ne: "?p \<noteq> []" and r: "rest = dropWhile (\<lambda>c. c = slash) (dropWhile (\<lambda>c. c \<noteq> slash) ?p)"
    by (auto simp: skipelem_def Let_def split: if_splits)
  from ne have "hd ?p \<noteq> slash" by (rule hd_dropWhile)
  with ne obtain c q where "?p = c # q" "c \<noteq> slash" by (cases ?p) auto
  then have "length rest \<le> length q"
    using r by (simp add: le_trans [OF length_dropWhile_le length_dropWhile_le])
  with \<open>?p = c # q\<close> length_dropWhile_le [of "\<lambda>c. c = slash" path] show ?thesis by simp
qed

text \<open>The loop of \<open>namex\<close>, from the inode \<open>ip\<close>; \<open>par\<close> is the argument \<open>nameiparent\<close>.\<close>

function namex_loop :: "'e kfs_scheme devsw \<Rightarrow> bool \<Rightarrow> uchar list \<Rightarrow> uchar list \<Rightarrow> nat \<Rightarrow>
    ('e kfs_scheme, (nat \<times> uchar list) option) kop" where
  "namex_loop dv par name path ip =
     (case skipelem path of
        None \<Rightarrow> if par then seq (iput ip) (ret None) else ret (Some (ip, name))
      | Some (rest, elem) \<Rightarrow>
          seq (ilock ip)
          (bnd (gets (\<lambda>s. itype (inodes s ip))) (\<lambda>ty.
           if ty \<noteq> T_DIR then seq (iunlockput ip) (ret None)
           else if par \<and> rest = [] then seq (iunlock ip) (ret (Some (ip, elem)))
           else
             bnd (dirlookup dv ip elem) (\<lambda>nxt.
             case nxt of
               None \<Rightarrow> seq (iunlockput ip) (ret None)
             | Some (nip, _) \<Rightarrow> seq (iunlockput ip) (namex_loop dv par elem rest nip)))))"
  by pat_completeness auto

termination
  by (relation "measure (\<lambda>(dv, par, name, path, ip). length path)") (auto simp: skipelem_shorter)

declare namex_loop.simps [simp del]

definition namex :: "'e kfs_scheme devsw \<Rightarrow> bool \<Rightarrow> uchar list \<Rightarrow>
    ('e kfs_scheme, (nat \<times> uchar list) option) kop" where
  "namex dv par path =
     bnd (if path \<noteq> [] \<and> hd path = slash then iget ROOTDEV ROOTINO
          else
            bnd curproc (\<lambda>p.
            bnd (gets (\<lambda>s. cwd (ptable s ! p))) (\<lambda>c.
            case c of None \<Rightarrow> fault ''idup'' | Some ip \<Rightarrow> idup ip)))
       (namex_loop dv par [] path)"

definition namei :: "'e kfs_scheme devsw \<Rightarrow> uchar list \<Rightarrow> ('e kfs_scheme, nat option) kop" where
  "namei dv path = bnd (namex dv False path) (\<lambda>r. ret (map_option fst r))"

definition nameiparent :: "'e kfs_scheme devsw \<Rightarrow> uchar list \<Rightarrow>
    ('e kfs_scheme, (nat \<times> uchar list) option) kop" where
  "nameiparent dv path = namex dv True path"

end
