(* ===== verification/File.thy ===== *)
theory File
  imports Fs
begin

unbundle bit_operations_syntax

text \<open>
  file.c and pipe.c: the table of open files and pipes.

  Files are named by their index in \<open>ftable.file\<close>, pipes by the address of the page that holds
  them; the fields of a pipe are kept in a typed store indexed by that address.  Reading
  operations return the bytes that the code stores at the caller's address, writing operations
  take the bytes found there.
\<close>

section \<open>State\<close>

datatype fdtype = FD_NONE | FD_PIPE | FD_INODE

record filerec =
  ftype :: fdtype
  fref :: int
  readable :: bool
  writable :: bool
  fpipe :: addr
  fip :: nat
  foff :: uint

definition PIPESIZE :: nat where "PIPESIZE = 512"

record pipe =
  pdata :: "uchar list"
  nread :: uint
  nwrite :: uint
  readopen :: bool
  writeopen :: bool

record kfile = kfs +
  files :: "nat \<Rightarrow> filerec"
  pipes :: "addr \<Rightarrow> pipe"

definition upd_file :: "nat \<Rightarrow> (filerec \<Rightarrow> filerec) \<Rightarrow> 'e kfile_scheme \<Rightarrow> 'e kfile_scheme" where
  "upd_file f g s = s\<lparr>files := (files s)(f := g (files s f))\<rparr>"

definition upd_pipe :: "addr \<Rightarrow> (pipe \<Rightarrow> pipe) \<Rightarrow> 'e kfile_scheme \<Rightarrow> 'e kfile_scheme" where
  "upd_pipe p g s = s\<lparr>pipes := (pipes s)(p := g (pipes s p))\<rparr>"

section \<open>pipe.c\<close>

definition pipeclose :: "addr \<Rightarrow> bool \<Rightarrow> ('e kfile_scheme, unit) kop" where
  "pipeclose p wr =
     seq (acquire (PipeLock p))
     (seq (if wr then
             seq (modify (upd_pipe p (\<lambda>q. q\<lparr>writeopen := False\<rparr>))) (wakeup (ChNread p))
           else
             seq (modify (upd_pipe p (\<lambda>q. q\<lparr>readopen := False\<rparr>))) (wakeup (ChNwrite p)))
     (bnd (gets (\<lambda>s. pipes s p)) (\<lambda>q.
      if \<not> readopen q \<and> \<not> writeopen q then seq (release (PipeLock p)) (kfree p)
      else release (PipeLock p))))"

definition cur_killed :: "('e ksched_scheme, bool) kop" where
  "cur_killed = bnd curproc (\<lambda>i. gets (\<lambda>s. killed (ptable s ! i)))"

definition pipe_full :: "pipe \<Rightarrow> bool" where
  "pipe_full q \<longleftrightarrow> nwrite q = nread q + of_nat PIPESIZE"

definition pipe_put :: "uchar \<Rightarrow> pipe \<Rightarrow> pipe" where
  "pipe_put b q = q\<lparr>pdata := (pdata q)[unat (nwrite q) mod PIPESIZE := b], nwrite := nwrite q + 1\<rparr>"

definition pipe_get :: "pipe \<Rightarrow> uchar" where
  "pipe_get q = pdata q ! (unat (nread q) mod PIPESIZE)"

text \<open>
  The loop of \<open>pipewrite\<close> over the bytes still to be written.  When the pipe is full the
  writer sleeps; it continues with \<open>pipewrite_resume\<close> on the same bytes.
\<close>

fun pipewrite_loop :: "addr \<Rightarrow> int \<Rightarrow> uchar list \<Rightarrow> ('e kfile_scheme, int) kop" where
  "pipewrite_loop p n [] =
     seq (wakeup (ChNread p)) (seq (release (PipeLock p)) (ret n))"
| "pipewrite_loop p n (b # bs) =
     bnd (gets (\<lambda>s. pipes s p)) (\<lambda>q.
     if pipe_full q then
       bnd (if readopen q then cur_killed else ret True) (\<lambda>quit.
       if quit then seq (release (PipeLock p)) (ret (- 1))
       else seq (wakeup (ChNread p)) (seq (sleep (ChNwrite p) (PipeLock p)) spin))
     else
       seq (modify (upd_pipe p (pipe_put b)))
           (pipewrite_loop p n bs))"

definition pipewrite_resume :: "addr \<Rightarrow> int \<Rightarrow> uchar list \<Rightarrow> ('e kfile_scheme, int) kop" where
  "pipewrite_resume p n bs = seq (sleep_tail (PipeLock p)) (pipewrite_loop p n bs)"

definition pipewrite :: "addr \<Rightarrow> uchar list \<Rightarrow> int \<Rightarrow> ('e kfile_scheme, int) kop" where
  "pipewrite p src n = seq (acquire (PipeLock p)) (pipewrite_loop p n (take (nat n) src))"

fun piperead_copy :: "addr \<Rightarrow> nat \<Rightarrow> ('e kfile_scheme, uchar list) kop" where
  "piperead_copy p 0 = ret []"
| "piperead_copy p (Suc n) =
     bnd (gets (\<lambda>s. pipes s p)) (\<lambda>q.
     if nread q = nwrite q then ret []
     else
       seq (modify (upd_pipe p (\<lambda>q. q\<lparr>nread := nread q + 1\<rparr>)))
       (bnd (piperead_copy p n) (\<lambda>bs. ret (pipe_get q # bs))))"

definition piperead_loop :: "addr \<Rightarrow> int \<Rightarrow> ('e kfile_scheme, int \<times> uchar list) kop" where
  "piperead_loop p n =
     bnd (gets (\<lambda>s. pipes s p)) (\<lambda>q.
     if nread q = nwrite q \<and> writeopen q then
       bnd cur_killed (\<lambda>k.
       if k then seq (release (PipeLock p)) (ret (- 1, []))
       else seq (sleep (ChNread p) (PipeLock p)) spin)
     else
       bnd (piperead_copy p (nat n)) (\<lambda>bs.
       seq (wakeup (ChNwrite p))
       (seq (release (PipeLock p))
            (ret (int (length bs), bs)))))"

definition piperead_resume :: "addr \<Rightarrow> int \<Rightarrow> ('e kfile_scheme, int \<times> uchar list) kop" where
  "piperead_resume p n = seq (sleep_tail (PipeLock p)) (piperead_loop p n)"

definition piperead :: "addr \<Rightarrow> int \<Rightarrow> ('e kfile_scheme, int \<times> uchar list) kop" where
  "piperead p n = seq (acquire (PipeLock p)) (piperead_loop p n)"

section \<open>file.c\<close>

definition fileinit :: "('e kfile_scheme, unit) kop" where
  "fileinit = initlock FtableLock ''ftable''"

definition filealloc :: "('e kfile_scheme, nat option) kop" where
  "filealloc =
     seq (acquire FtableLock)
     (bnd (gets (\<lambda>s. find (\<lambda>f. fref (files s f) = 0) [0..<NFILE])) (\<lambda>found.
      case found of
        Some f \<Rightarrow>
          seq (modify (upd_file f (\<lambda>g. g\<lparr>fref := 1\<rparr>)))
          (seq (release FtableLock) (ret (Some f)))
      | None \<Rightarrow> seq (release FtableLock) (ret None)))"

definition filedup :: "nat \<Rightarrow> ('e kfile_scheme, nat) kop" where
  "filedup f =
     seq (acquire FtableLock)
     (bnd (gets (\<lambda>s. fref (files s f))) (\<lambda>r.
      if r < 1 then panic ''filedup''
      else
        seq (modify (upd_file f (\<lambda>g. g\<lparr>fref := fref g + 1\<rparr>)))
        (seq (release FtableLock) (ret f))))"

definition fileclose :: "nat \<Rightarrow> ('e kfile_scheme, unit) kop" where
  "fileclose f =
     seq (acquire FtableLock)
     (bnd (gets (\<lambda>s. fref (files s f))) (\<lambda>r.
      if r < 1 then panic ''fileclose''
      else
        seq (modify (upd_file f (\<lambda>g. g\<lparr>fref := fref g - 1\<rparr>)))
        (if r - 1 > 0 then release FtableLock
         else
           bnd (gets (\<lambda>s. files s f)) (\<lambda>ff.
           seq (modify (upd_file f (\<lambda>g. g\<lparr>fref := 0\<rparr>)))
           (seq (modify (upd_file f (\<lambda>g. g\<lparr>ftype := FD_NONE\<rparr>)))
           (seq (release FtableLock)
           (case ftype ff of
              FD_PIPE \<Rightarrow> pipeclose (fpipe ff) (writable ff)
            | FD_INODE \<Rightarrow> seq begin_trans (seq (iput (fip ff)) commit_trans)
            | FD_NONE \<Rightarrow> ret ())))))))"

definition filestat :: "nat \<Rightarrow> ('e kfile_scheme, stat option) kop" where
  "filestat f =
     bnd (gets (\<lambda>s. files s f)) (\<lambda>ff.
     if ftype ff = FD_INODE then
       seq (ilock (fip ff))
       (bnd (stati (fip ff)) (\<lambda>st.
        seq (iunlock (fip ff)) (ret (Some st))))
     else ret None)"

definition fileread :: "'e kfile_scheme devsw \<Rightarrow> nat \<Rightarrow> int \<Rightarrow> ('e kfile_scheme, int \<times> uchar list) kop" where
  "fileread dv f n =
     bnd (gets (\<lambda>s. files s f)) (\<lambda>ff.
     if \<not> readable ff then ret (- 1, [])
     else
       (case ftype ff of
          FD_PIPE \<Rightarrow> piperead (fpipe ff) n
        | FD_INODE \<Rightarrow>
            seq (ilock (fip ff))
            (bnd (gets (\<lambda>s. foff (files s f))) (\<lambda>off.
             bnd (readi dv (fip ff) off (of_int n)) (\<lambda>(r, bytes).
             seq (whenM (r > 0) (modify (upd_file f (\<lambda>g. g\<lparr>foff := foff g + of_int r\<rparr>))))
             (seq (iunlock (fip ff)) (ret (r, bytes))))))
        | FD_NONE \<Rightarrow> panic ''fileread''))"

definition filewrite_max :: nat where
  "filewrite_max = ((LOGSIZE - 1 - 1 - 2) div 2) * 512"

text \<open>\<open>filewrite_loop\<close>: \<open>True\<close> when all bytes have been written, \<open>False\<close> after the \<open>break\<close>.\<close>

function filewrite_loop :: "'e kfile_scheme devsw \<Rightarrow> nat \<Rightarrow> nat \<Rightarrow> uchar list \<Rightarrow> ('e kfile_scheme, bool) kop" where
  "filewrite_loop dv f ip src =
     (if src = [] then ret True
      else
        let n1 = min (length src) filewrite_max in
        seq begin_trans
        (seq (ilock ip)
        (bnd (gets (\<lambda>s. foff (files s f))) (\<lambda>off.
         bnd (writei dv ip (take n1 src) off) (\<lambda>r.
         seq (whenM (r > 0) (modify (upd_file f (\<lambda>g. g\<lparr>foff := foff g + of_int r\<rparr>))))
         (seq (iunlock ip)
         (seq commit_trans
         (if r < 0 then ret False
          else if r \<noteq> int n1 then panic ''short filewrite''
          else filewrite_loop dv f ip (drop n1 src))))))))) "
  by pat_completeness auto

termination
  by (relation "measure (\<lambda>(dv, f, ip, src). length src)")
    (auto simp: filewrite_max_def LOGSIZE_def min_def)

declare filewrite_loop.simps [simp del]

definition filewrite :: "'e kfile_scheme devsw \<Rightarrow> nat \<Rightarrow> uchar list \<Rightarrow> int \<Rightarrow> ('e kfile_scheme, int) kop" where
  "filewrite dv f src n =
     bnd (gets (\<lambda>s. files s f)) (\<lambda>ff.
     if \<not> writable ff then ret (- 1)
     else
       (case ftype ff of
          FD_PIPE \<Rightarrow> pipewrite (fpipe ff) src n
        | FD_INODE \<Rightarrow>
            bnd (filewrite_loop dv f (fip ff) (take (nat n) src)) (\<lambda>all.
            ret (if all \<and> 0 \<le> n then n else - 1))
        | FD_NONE \<Rightarrow> panic ''filewrite''))"

text \<open>
  \<open>pipealloc\<close>; the pair is \<open>*f0\<close> and \<open>*f1\<close>.  On the error path \<open>p\<close> is null, because \<open>kalloc\<close>
  is the last call that can fail.
\<close>

definition pipealloc :: "('e kfile_scheme, (nat \<times> nat) option) kop" where
  "pipealloc =
     bnd filealloc (\<lambda>f0.
     bnd (case f0 of None \<Rightarrow> ret None | Some _ \<Rightarrow> filealloc) (\<lambda>f1.
     bnd (case f1 of None \<Rightarrow> ret 0 | Some _ \<Rightarrow> kalloc) (\<lambda>p.
     case (f0, f1) of
       (Some r, Some w) \<Rightarrow>
         if p \<noteq> 0 then
           seq (modify (upd_pipe p (\<lambda>q. q\<lparr>readopen := True, writeopen := True, nwrite := 0, nread := 0\<rparr>)))
           (seq (initlock (PipeLock p) ''pipe'')
           (seq (modify (upd_file r (\<lambda>g. g\<lparr>ftype := FD_PIPE, readable := True, writable := False, fpipe := p\<rparr>)))
           (seq (modify (upd_file w (\<lambda>g. g\<lparr>ftype := FD_PIPE, readable := False, writable := True, fpipe := p\<rparr>)))
                (ret (Some (r, w))))))
         else seq (fileclose r) (seq (fileclose w) (ret None))
     | (Some r, None) \<Rightarrow> seq (fileclose r) (ret None)
     | (None, _) \<Rightarrow> ret None)))"

end
