(* ===== verification/Fifo.thy ===== *)
theory Fifo
  imports Prelude
begin

text \<open>
  The contract of a bounded first-in first-out queue, and what follows from it for every sequence of operations.  The ring buffer of a
  pipe, the kernel's queue of threads and the queue of the user library satisfy it.
\<close>

datatype 'v qop = Enq 'v | Deq

text \<open>A sequence of operations on a queue in memory: the values that come out.\<close>

fun qrun :: "('v \<Rightarrow> ('s, unit) kop) \<Rightarrow> ('s, 'v) kop \<Rightarrow> 'v qop list \<Rightarrow> ('s, 'v list) kop" where
  "qrun enq deq [] = ret []"
| "qrun enq deq (Enq v # ops) = seq (enq v) (qrun enq deq ops)"
| "qrun enq deq (Deq # ops) = bnd deq (\<lambda>v. bnd (qrun enq deq ops) (\<lambda>vs. ret (v # vs)))"

text \<open>
  The same on a list with \<open>k\<close> places left: the values that come out, the content and the places left at the end; \<open>None\<close> when an
  operation takes from the empty queue or adds to a full one.
\<close>

fun qspec :: "'v list \<Rightarrow> nat \<Rightarrow> 'v qop list \<Rightarrow> ('v list \<times> 'v list \<times> nat) option" where
  "qspec xs k [] = Some ([], xs, k)"
| "qspec xs 0 (Enq v # ops) = None"
| "qspec xs (Suc k) (Enq v # ops) = qspec (xs @ [v]) k ops"
| "qspec [] k (Deq # ops) = None"
| "qspec (x # xs) k (Deq # ops) = map_option (\<lambda>(vs, ys, j). (x # vs, ys, j)) (qspec xs (Suc k) ops)"

locale fifo =
  fixes enq :: "'v \<Rightarrow> ('s, unit) kop" and deq :: "('s, 'v) kop" and rep :: "'v list \<Rightarrow> nat \<Rightarrow> 's \<Rightarrow> bool"
  assumes enq_law: "rep xs (Suc k) s \<Longrightarrow> \<exists>t. enq v s = Ok () t \<and> rep (xs @ [v]) k t"
    and deq_law: "rep (x # xs) k s \<Longrightarrow> \<exists>t. deq s = Ok x t \<and> rep xs (Suc k) t"
begin

lemma qrun_refines:
  "rep xs k s \<Longrightarrow> qspec xs k ops = Some (vs, ys, j) \<Longrightarrow> \<exists>t. qrun enq deq ops s = Ok vs t \<and> rep ys j t"
proof (induction ops arbitrary: xs k s vs)
  case Nil
  then show ?case by simp
next
  case (Cons op ops)
  show ?case
  proof (cases op)
    case (Enq v)
    with Cons.prems(2) obtain l where l: "k = Suc l" "qspec (xs @ [v]) l ops = Some (vs, ys, j)" by (cases k) auto
    from enq_law [OF Cons.prems(1) [unfolded l(1)], of v] obtain t where t: "enq v s = Ok () t" "rep (xs @ [v]) l t" by blast
    with Cons.IH [OF t(2) l(2)] Enq show ?thesis by simp
  next
    case Deq
    with Cons.prems(2) obtain x zs ws where x: "xs = x # zs" "vs = x # ws" "qspec zs (Suc k) ops = Some (ws, ys, j)"
      by (cases xs) auto
    from deq_law [OF Cons.prems(1) [unfolded x(1)]] obtain t where t: "deq s = Ok x t" "rep zs (Suc k) t" by blast
    from Cons.IH [OF t(2) x(3)] obtain u where "qrun enq deq ops t = Ok ws u" "rep ys j u" by blast
    with Deq t(1) x(2) show ?thesis by simp
  qed
qed

text \<open>A block of values comes out as it went in.\<close>

lemma qspec_enqs: "length vs \<le> k \<Longrightarrow> qspec xs k (map Enq vs @ ops) = qspec (xs @ vs) (k - length vs) ops"
proof (induction vs arbitrary: xs k)
  case (Cons v vs)
  then obtain l where "k = Suc l" "length vs \<le> l" by (cases k) auto
  then show ?case using Cons.IH [of l "xs @ [v]"] by simp
qed simp

lemma qspec_deqs: "length xs = n \<Longrightarrow> qspec (xs @ ys) k (replicate n Deq) = Some (xs, ys, k + n)"
  by (induction xs arbitrary: n k) auto

lemma block_through:
  assumes "rep [] k s" and "length vs \<le> k"
  shows "\<exists>t. qrun enq deq (map Enq vs @ replicate (length vs) Deq) s = Ok vs t \<and> rep [] k t"
  using qrun_refines [OF assms(1)] qspec_enqs [OF assms(2), of "[]"] qspec_deqs [of vs "length vs" "[]"] assms(2)
  by simp

end

section \<open>Ring buffers\<close>

text \<open>
  A buffer whose size divides \<open>2 ^ 32\<close> holds the list \<open>xs\<close> from the free-running index \<open>r\<close> on; the indices wrap around with the machine word.
\<close>

definition ring_holds :: "uint \<Rightarrow> 'v list \<Rightarrow> 'v list \<Rightarrow> bool" where
  "ring_holds r xs buf \<longleftrightarrow> length buf dvd 2 ^ 32 \<and> length xs \<le> length buf \<and>
     (\<forall>i < length xs. buf ! (unat (r + of_nat i) mod length buf) = xs ! i)"

lemma ring_index: "n dvd 2 ^ 32 \<Longrightarrow> unat (w + of_nat i :: uint) mod n = (unat w + i) mod n"
  by (simp add: unat_word_ariths unat_of_nat mod_mod_cancel mod_add_right_eq flip: mod_add_eq [of _ "i mod 2 ^ 32"])

lemma ring_index_inj:
  assumes "i < n" and "j < n" and "(a + i) mod n = (a + j) mod (n :: nat)"
  shows "i = j"
proof -
  have *: "j \<le> i" if "i < n" "(a + i) mod n = (a + j) mod n" "j < n" for i j
  proof (rule ccontr)
    assume "\<not> j \<le> i"
    then have "n dvd (a + j) - (a + i)" using that by (intro iffD1 [OF mod_eq_dvd_iff_nat]) simp_all
    with \<open>\<not> j \<le> i\<close> that show False using nat_dvd_not_less [of "j - i" n] by auto
  qed
  from * [OF assms(1,3,2)] * [OF assms(2) assms(3) [symmetric] assms(1)] show ?thesis by simp
qed

lemma ring_put:
  assumes "ring_holds r xs buf" and "length xs < length buf"
  shows "ring_holds r (xs @ [b]) (buf[unat (r + of_nat (length xs)) mod length buf := b])"
proof -
  let ?n = "length buf" and ?k = "length xs"
  have d: "?n dvd 2 ^ 32" and h: "\<And>i. i < ?k \<Longrightarrow> buf ! (unat (r + of_nat i) mod ?n) = xs ! i"
    using assms(1) by (simp_all add: ring_holds_def)
  have "buf[(unat r + ?k) mod ?n := b] ! ((unat r + i) mod ?n) = (xs @ [b]) ! i" if i: "i < Suc ?k" for i
  proof (cases "i = ?k")
    case True
    have "(unat r + ?k) mod ?n < ?n" using assms(2) by (intro mod_less_divisor) linarith
    then show ?thesis unfolding True by simp
  next
    case False
    then have "(unat r + i) mod ?n \<noteq> (unat r + ?k) mod ?n" using ring_index_inj [of i ?n ?k] i assms(2) by auto
    then show ?thesis using h [of i] i False by (simp add: ring_index [OF d] nth_append)
  qed
  then show ?thesis using d assms(2) by (simp add: ring_holds_def ring_index [OF d])
qed

lemma ring_get:
  assumes "ring_holds r (x # xs) buf"
  shows "buf ! (unat r mod length buf) = x" and "ring_holds (r + 1) xs buf"
proof -
  have h: "buf ! (unat (r + of_nat i) mod length buf) = (x # xs) ! i" if "i < Suc (length xs)" for i
    using assms that by (simp add: ring_holds_def)
  show "buf ! (unat r mod length buf) = x" using h [of 0] by simp
  have "buf ! (unat (r + 1 + of_nat i) mod length buf) = xs ! i" if "i < length xs" for i
    using h [of "Suc i"] that by (simp add: algebra_simps)
  then show "ring_holds (r + 1) xs buf" using assms by (simp add: ring_holds_def)
qed

lemma ring_prefix: "ring_holds r (xs @ ys) buf \<Longrightarrow> ring_holds r xs buf"
  by (auto simp: ring_holds_def nth_append)

end
