(* ===== verification/Pipes.thy ===== *)
theory Pipes
  imports File Fifo
begin

text \<open>
  The ring buffer of a pipe is a first-in first-out queue of at most \<open>PIPESIZE\<close> bytes.  The counters \<open>nread\<close> and \<open>nwrite\<close> count all bytes ever read and
  written modulo \<open>2 ^ 32\<close>; since \<open>PIPESIZE\<close> divides \<open>2 ^ 32\<close> the index into \<open>data\<close> stays right
  when they wrap around.
\<close>

section \<open>The ring buffer\<close>

definition pipe_rep :: "uchar list \<Rightarrow> nat \<Rightarrow> pipe \<Rightarrow> bool" where
  "pipe_rep xs k q \<longleftrightarrow> length (pdata q) = PIPESIZE \<and> length xs + k = PIPESIZE \<and>
     nwrite q = nread q + of_nat (length xs) \<and> ring_holds (nread q) xs (pdata q)"

lemma unat_small: "m \<le> PIPESIZE \<Longrightarrow> unat (of_nat m :: uint) = m"
  by (simp add: unat_of_nat PIPESIZE_def)

lemma pipe_put_rep:
  assumes "pipe_rep xs (Suc k) q"
  shows "pipe_rep (xs @ [b]) k (pipe_put b q)"
  using assms ring_put [of "nread q" xs "pdata q" b] by (simp add: pipe_rep_def pipe_put_def algebra_simps)

lemma pipe_get_rep:
  assumes "pipe_rep (x # xs) k q"
  shows "pipe_get q = x" and "pipe_rep xs (Suc k) (q\<lparr>nread := nread q + 1\<rparr>)" and "nread q \<noteq> nwrite q"
proof -
  from assms have q: "length (pdata q) = PIPESIZE" "Suc (length xs) + k = PIPESIZE" "nwrite q = nread q + of_nat (Suc (length xs))"
    "ring_holds (nread q) (x # xs) (pdata q)" by (simp_all add: pipe_rep_def)
  show "pipe_get q = x" using ring_get(1) [OF q(4)] q(1) by (simp add: pipe_get_def)
  show "pipe_rep xs (Suc k) (q\<lparr>nread := nread q + 1\<rparr>)" using ring_get(2) [OF q(4)] q(1-3) by (simp add: pipe_rep_def algebra_simps)
  have "unat (of_nat (Suc (length xs)) :: uint) = Suc (length xs)" using q(2) by (intro unat_small) simp
  then have "(of_nat (Suc (length xs)) :: uint) \<noteq> 0" by (metis nat.distinct(1) unat_0)
  then show "nread q \<noteq> nwrite q" unfolding q(3) by simp
qed

lemma pipe_full_rep:
  assumes "pipe_rep xs k q"
  shows "pipe_full q \<longleftrightarrow> k = 0" and "nread q = nwrite q \<longleftrightarrow> xs = []"
proof -
  have q: "length xs + k = PIPESIZE" "nwrite q = nread q + of_nat (length xs)" using assms by (simp_all add: pipe_rep_def)
  have "pipe_full q \<longleftrightarrow> (of_nat (length xs) :: uint) = of_nat PIPESIZE" unfolding pipe_full_def q(2) by simp
  also have "\<dots> \<longleftrightarrow> length xs = PIPESIZE" using unat_small [of "length xs"] unat_small [of PIPESIZE] q(1) by (metis le_add1 order_refl)
  finally show "pipe_full q \<longleftrightarrow> k = 0" using q(1) by auto
  show "nread q = nwrite q \<longleftrightarrow> xs = []"
    using assms pipe_get_rep(3) [of "hd xs" "tl xs" k q] by (cases xs) (simp_all add: q(2))
qed

text \<open>One byte in and one byte out, as \<open>pipewrite\<close> and \<open>piperead\<close> do.\<close>

definition pipe_take :: "addr \<Rightarrow> ('e kfile_scheme, uchar) kop" where
  "pipe_take p =
     bnd (gets (\<lambda>s. pipes s p)) (\<lambda>q.
     seq (modify (upd_pipe p (\<lambda>q. q\<lparr>nread := nread q + 1\<rparr>))) (ret (pipe_get q)))"

interpretation pipeq: fifo "\<lambda>b. modify (upd_pipe p (pipe_put b))" "pipe_take p" "\<lambda>xs k s. pipe_rep xs k (pipes s p)"
  by unfold_locales
    (simp_all add: pipe_put_rep upd_pipe_def pipe_take_def seq_apply pipe_get_rep)


section \<open>The layer's simplification rules\<close>

lemma pipe_lock_simps [simp]:
  "pipes (taken lk s) = pipes s" "pipes (settled s) = pipes s" "pipes (given lk s) = pipes s"
  "upd_pipe p f (taken lk s) = taken lk (upd_pipe p f s)" "upd_pipe p f (settled s) = settled (upd_pipe p f s)"
  "idle lk (upd_pipe p f s) = idle lk s" "cli_wf (upd_pipe p f s) = cli_wf s" "mycpu (upd_pipe p f s) = mycpu s"
  "ptable (upd_pipe p f s) = ptable s" "pipes (upd_pipe p f s) = (pipes s)(p := f (pipes s p))"
  by (simp_all add: upd_pipe_def taken_def given_def settled_def core_defs idle_def cli_wf_def)

lemma pipes_upd_proc [simp]: "pipes (upd_proc i f s) = pipes s"
  by (simp add: upd_proc_def)

section \<open>pipewrite and piperead\<close>

definition pipe_puts :: "addr \<Rightarrow> uchar list \<Rightarrow> 'e kfile_scheme \<Rightarrow> 'e kfile_scheme" where
  "pipe_puts p bs s = fold (\<lambda>b. upd_pipe p (pipe_put b)) bs s"

lemma pipe_puts_simps [simp]:
  "idle lk (pipe_puts p bs s) = idle lk s" "cli_wf (pipe_puts p bs s) = cli_wf s" "mycpu (pipe_puts p bs s) = mycpu s"
  "ptable (pipe_puts p bs s) = ptable s" "readopen (pipes (pipe_puts p bs s) p) = readopen (pipes s p)"
  "pipe_puts p [] s = s" "pipe_puts p (b # bs) s = pipe_puts p bs (upd_pipe p (pipe_put b) s)"
proof -
  show "pipe_puts p [] s = s" "pipe_puts p (b # bs) s = pipe_puts p bs (upd_pipe p (pipe_put b) s)"
    by (simp_all add: pipe_puts_def)
  have "idle lk (pipe_puts p bs s) = idle lk s \<and> cli_wf (pipe_puts p bs s) = cli_wf s \<and> mycpu (pipe_puts p bs s) = mycpu s
    \<and> ptable (pipe_puts p bs s) = ptable s \<and> readopen (pipes (pipe_puts p bs s) p) = readopen (pipes s p)"
    by (induction bs arbitrary: s) (simp_all add: pipe_puts_def pipe_put_def)
  then show "idle lk (pipe_puts p bs s) = idle lk s" "cli_wf (pipe_puts p bs s) = cli_wf s" "mycpu (pipe_puts p bs s) = mycpu s"
    "ptable (pipe_puts p bs s) = ptable s" "readopen (pipes (pipe_puts p bs s) p) = readopen (pipes s p)" by simp_all
qed

lemma pipewrite_loop_steps:
  assumes "pipe_rep xs k (pipes s p)"
  shows "pipewrite_loop p n bs (taken (PipeLock p) s) =
      pipewrite_loop p n (drop k bs) (taken (PipeLock p) (pipe_puts p (take k bs) s))"
    and "pipe_rep (xs @ take k bs) (k - length bs) (pipes (pipe_puts p (take k bs) s) p)"
proof -
  have "pipewrite_loop p n bs (taken (PipeLock p) s) =
      pipewrite_loop p n (drop k bs) (taken (PipeLock p) (pipe_puts p (take k bs) s))
    \<and> pipe_rep (xs @ take k bs) (k - length bs) (pipes (pipe_puts p (take k bs) s) p)"
    using assms
  proof (induction bs arbitrary: xs k s)
    case Nil
    then show ?case by simp
  next
    case (Cons b bs)
    show ?case
    proof (cases k)
      case 0
      with Cons.prems show ?thesis by simp
    next
      case (Suc l)
      let ?t = "upd_pipe p (pipe_put b) s"
      have r: "pipe_rep (xs @ [b]) l (pipes ?t p)" using pipe_put_rep Cons.prems Suc by simp
      have "\<not> pipe_full (pipes s p)" using pipe_full_rep(1) [OF Cons.prems] Suc by simp
      then have "pipewrite_loop p n (b # bs) (taken (PipeLock p) s) = pipewrite_loop p n bs (taken (PipeLock p) ?t)" by simp
      with Cons.IH [OF r] Suc show ?thesis by simp
    qed
  qed
  then show "pipewrite_loop p n bs (taken (PipeLock p) s) =
      pipewrite_loop p n (drop k bs) (taken (PipeLock p) (pipe_puts p (take k bs) s))"
    "pipe_rep (xs @ take k bs) (k - length bs) (pipes (pipe_puts p (take k bs) s) p)" by simp_all
qed

text \<open>
  C9 (pipewrite). Bytes that fit are appended to the content of the pipe, all of them and in order, and the readers are
  woken.  Otherwise exactly the bytes that fit are appended; then the call returns -1 if no reader is left or the
  process is killed, and else the process sleeps until a reader makes room, without the lock.
\<close>

theorem pipewrite_spec:
  assumes rep: "pipe_rep xs k (pipes s p)" and lk: "idle (PipeLock p) s" "idle PtableLock s" "cli_wf s"
    and cur: "ncli (mycpu s) = 0" "cproc (mycpu s) = Some i" "i < length (ptable s)"
  shows "(length bs \<le> k \<longrightarrow> (\<exists>t. pipewrite p bs (int (length bs)) s = Ok (int (length bs)) t \<and>
        pipe_rep (xs @ bs) (k - length bs) (pipes t p) \<and> ptable t = map (wake (Some (ChNread p))) (ptable s))) \<and>
    (k < length bs \<and> (\<not> readopen (pipes s p) \<or> killed (ptable s ! i)) \<longrightarrow>
      (\<exists>t. pipewrite p bs (int (length bs)) s = Ok (- 1) t \<and> pipe_rep (xs @ take k bs) 0 (pipes t p))) \<and>
    (k < length bs \<and> readopen (pipes s p) \<and> \<not> killed (ptable s ! i) \<longrightarrow>
      (\<exists>u. pipewrite p bs (int (length bs)) s = Stop (Swtch u) \<and> pipe_rep (xs @ take k bs) 0 (pipes u p) \<and>
        state (ptable u ! i) = SLEEPING \<and> chan (ptable u ! i) = Some (ChNwrite p) \<and> idle (PipeLock p) u))"
proof (intro conjI impI)
  let ?n = "int (length bs)" and ?L = "PipeLock p" and ?t = "pipe_puts p (take k bs) s"
  note st = pipewrite_loop_steps(1) [OF rep, of ?n bs] pipewrite_loop_steps(2) [OF rep, of bs]
  have w: "pipewrite p bs ?n s = pipewrite_loop p ?n (drop k bs) (taken ?L ?t)"
    using st(1) lk by (simp add: pipewrite_def)
  {
    assume le: "length bs \<le> k"
    then have "pipewrite p bs ?n s = Ok ?n (settled (?t\<lparr>ptable := map (wake (Some (ChNread p))) (ptable s)\<rparr>))"
      using lk unfolding w by (simp add: seq_apply wakeup_eq)
    with st(2) le show "\<exists>t. pipewrite p bs ?n s = Ok ?n t \<and> pipe_rep (xs @ bs) (k - length bs) (pipes t p) \<and>
        ptable t = map (wake (Some (ChNread p))) (ptable s)" by simp
  next
    assume c: "k < length bs \<and> (\<not> readopen (pipes s p) \<or> killed (ptable s ! i))"
    then obtain b cs where d: "drop k bs = b # cs" by (cases "drop k bs") auto
    have f: "pipe_full (pipes ?t p)" using pipe_full_rep(1) [OF st(2)] c by simp
    have "pipewrite p bs ?n s = Ok (- 1) (settled ?t)"
      using lk c f cur unfolding w d by (auto simp: seq_apply bnd_apply cur_killed_def curproc_def)
    with st(2) c show "\<exists>t. pipewrite p bs ?n s = Ok (- 1) t \<and> pipe_rep (xs @ take k bs) 0 (pipes t p)" by simp
  next
    assume c: "k < length bs \<and> readopen (pipes s p) \<and> \<not> killed (ptable s ! i)"
    then obtain b cs where d: "drop k bs = b # cs" by (cases "drop k bs") auto
    have f: "pipe_full (pipes ?t p)" using pipe_full_rep(1) [OF st(2)] c by simp
    let ?v = "?t\<lparr>ptable := map (wake (Some (ChNread p))) (ptable s)\<rparr>"
    let ?u = "asleep i (ChNwrite p) (given ?L (taken PtableLock (taken ?L ?v)))"
    have sl: "sleep (ChNwrite p) ?L (taken ?L ?v) = Stop (Swtch ?u)"
      using lk cur by (intro sleep_eq) simp_all
    have "pipewrite p bs ?n s = Stop (Swtch ?u)"
      using lk c f cur sl unfolding w d by (simp add: seq_apply bnd_apply cur_killed_def curproc_def wakeup_eq)
    moreover have "idle ?L ?u" by (simp add: asleep_def)
    ultimately show "\<exists>u. pipewrite p bs ?n s = Stop (Swtch u) \<and> pipe_rep (xs @ take k bs) 0 (pipes u p) \<and>
        state (ptable u ! i) = SLEEPING \<and> chan (ptable u ! i) = Some (ChNwrite p) \<and> idle ?L u"
      using st(2) c cur(3) by (intro exI [of _ ?u]) (simp add: asleep_def)
  }
qed


lemma piperead_copy_eq:
  assumes "pipe_rep xs k (pipes s p)"
  shows "\<exists>q. piperead_copy p m (taken lk s) = Ok (take m xs) (taken lk (s\<lparr>pipes := (pipes s)(p := q)\<rparr>))
    \<and> pipe_rep (drop m xs) (k + length (take m xs)) q"
  using assms
proof (induction m arbitrary: xs k s)
  case 0
  then show ?case by (intro exI [of _ "pipes s p"]) simp
next
  case (Suc m)
  show ?case
  proof (cases xs)
    case Nil
    with Suc.prems pipe_full_rep(2) [OF Suc.prems] show ?thesis by (intro exI [of _ "pipes s p"]) simp
  next
    case (Cons x ys)
    note g = pipe_get_rep [OF Suc.prems [unfolded Cons]]
    let ?t = "upd_pipe p (\<lambda>q. q\<lparr>nread := nread q + 1\<rparr>) s"
    have "pipe_rep ys (Suc k) (pipes ?t p)" using g(2) by simp
    from Suc.IH [OF this] obtain q where q: "piperead_copy p m (taken lk ?t) = Ok (take m ys) (taken lk (?t\<lparr>pipes := (pipes ?t)(p := q)\<rparr>))"
      "pipe_rep (drop m ys) (Suc k + length (take m ys)) q" by blast
    have "?t\<lparr>pipes := (pipes ?t)(p := q)\<rparr> = s\<lparr>pipes := (pipes s)(p := q)\<rparr>" by (simp add: upd_pipe_def)
    with q g show ?thesis unfolding Cons by (intro exI [of _ q]) (simp add: seq_apply fun_upd_def)
  qed
qed

text \<open>
  C10 (piperead). A read of a pipe that is not empty, or whose writers are gone, returns the oldest \<open>n\<close> bytes of the content (fewer when there are fewer,
  none at the end of the stream), removes exactly these and wakes the writers.  On an empty pipe with a writer a killed
  process gets -1 and any other sleeps, without the lock and with the pipe unchanged.
\<close>

theorem piperead_spec:
  assumes rep: "pipe_rep xs k (pipes s p)" and lk: "idle (PipeLock p) s" "idle PtableLock s" "cli_wf s"
    and cur: "ncli (mycpu s) = 0" "cproc (mycpu s) = Some i" "i < length (ptable s)"
  shows "(xs \<noteq> [] \<or> \<not> writeopen (pipes s p) \<longrightarrow>
      (\<exists>t. piperead p n s = Ok (int (length (take (nat n) xs)), take (nat n) xs) t \<and>
        pipe_rep (drop (nat n) xs) (k + length (take (nat n) xs)) (pipes t p) \<and>
        ptable t = map (wake (Some (ChNwrite p))) (ptable s))) \<and>
    (xs = [] \<and> writeopen (pipes s p) \<and> killed (ptable s ! i) \<longrightarrow>
      (\<exists>t. piperead p n s = Ok (- 1, []) t \<and> pipes t = pipes s)) \<and>
    (xs = [] \<and> writeopen (pipes s p) \<and> \<not> killed (ptable s ! i) \<longrightarrow>
      (\<exists>u. piperead p n s = Stop (Swtch u) \<and> pipes u = pipes s \<and>
        state (ptable u ! i) = SLEEPING \<and> chan (ptable u ! i) = Some (ChNread p) \<and> idle (PipeLock p) u))"
proof (intro conjI impI)
  let ?L = "PipeLock p"
  note e = pipe_full_rep(2) [OF rep]
  {
    assume c: "xs \<noteq> [] \<or> \<not> writeopen (pipes s p)"
    from piperead_copy_eq [OF rep, of "nat n" ?L] obtain q where q: "piperead_copy p (nat n) (taken ?L s) =
        Ok (take (nat n) xs) (taken ?L (s\<lparr>pipes := (pipes s)(p := q)\<rparr>))"
      "pipe_rep (drop (nat n) xs) (k + length (take (nat n) xs)) q" by blast
    let ?t = "s\<lparr>pipes := (pipes s)(p := q), ptable := map (wake (Some (ChNwrite p))) (ptable s)\<rparr>"
    have "idle lk (s\<lparr>pipes := P\<rparr>) = idle lk s" "cli_wf (s\<lparr>pipes := P\<rparr>) = cli_wf s" for lk P
      by (simp_all add: idle_def cli_wf_def mycpu_def)
    then have "piperead p n s = Ok (int (length (take (nat n) xs)), take (nat n) xs) (settled ?t)"
      using lk c e q(1) by (auto simp: piperead_def piperead_loop_def seq_apply wakeup_eq)
    with q(2) show "\<exists>t. piperead p n s = Ok (int (length (take (nat n) xs)), take (nat n) xs) t \<and>
        pipe_rep (drop (nat n) xs) (k + length (take (nat n) xs)) (pipes t p) \<and>
        ptable t = map (wake (Some (ChNwrite p))) (ptable s)" by (intro exI [of _ "settled ?t"]) simp
  next
    assume c: "xs = [] \<and> writeopen (pipes s p) \<and> killed (ptable s ! i)"
    have "piperead p n s = Ok (- 1, []) (settled s)"
      using lk c e cur by (simp add: piperead_def piperead_loop_def seq_apply bnd_apply cur_killed_def curproc_def)
    then show "\<exists>t. piperead p n s = Ok (- 1, []) t \<and> pipes t = pipes s" by simp
  next
    assume c: "xs = [] \<and> writeopen (pipes s p) \<and> \<not> killed (ptable s ! i)"
    let ?u = "asleep i (ChNread p) (given ?L (taken PtableLock (taken ?L s)))"
    have "sleep (ChNread p) ?L (taken ?L s) = Stop (Swtch ?u)" using lk cur by (intro sleep_eq) simp_all
    then have "piperead p n s = Stop (Swtch ?u)"
      using lk c e cur by (simp add: piperead_def piperead_loop_def seq_apply bnd_apply cur_killed_def curproc_def)
    then show "\<exists>u. piperead p n s = Stop (Swtch u) \<and> pipes u = pipes s \<and>
        state (ptable u ! i) = SLEEPING \<and> chan (ptable u ! i) = Some (ChNread p) \<and> idle ?L u"
      using cur(3) by (intro exI [of _ ?u]) (simp add: asleep_def)
  }
qed

text \<open>
  C8 (a pipe is a queue). For every sequence of byte writes and reads that the bounded queue allows, the ring buffer delivers the same bytes in the
  same order as a list, whatever the values of the two counters, also when they wrap around.
\<close>

theorem pipe_fifo:
  assumes "pipe_rep xs k (pipes s p)" and "qspec xs k ops = Some (vs, ys, j)"
  shows "\<exists>t. qrun (\<lambda>b. modify (upd_pipe p (pipe_put b))) (pipe_take p) ops s = Ok vs t \<and> pipe_rep ys j (pipes t p)"
  by (rule pipeq.qrun_refines [OF assms])


section \<open>A concrete machine\<close>

text \<open>
  Process 0 runs; the first file is open on the pipe at \<open>0x80500000\<close>, whose counters are about to wrap around.
\<close>

definition ex_pipe :: pipe where
  "ex_pipe = \<lparr>pdata = replicate PIPESIZE 0, nread = - 2, nwrite = - 2, readopen = True, writeopen = True\<rparr>"

definition ex_inode :: inode where
  "ex_inode = \<lparr>idev = 0, inum = 0, iref = 0, iflags = 0, itype = 0, major = 0, minor = 0, nlink = 0, isize = 0,
     addrs = replicate 13 0\<rparr>"

definition ex_file0 :: filerec where
  "ex_file0 = \<lparr>ftype = FD_PIPE, fref = 2, readable = True, writable = False, fpipe = 0x80500000, fip = 0, foff = 0\<rparr>"

definition ex_file_ext :: "'e \<Rightarrow> 'e kfile_scheme" where
  "ex_file_ext r = set_mycpu (\<lambda>c. c\<lparr>cproc := Some 0\<rparr>)
     (ex_bio_ext (klog_ext 1000 20 False 1 0 (\<lambda>_. 0) (kfs_ext (\<lambda>_. ex_inode)
       (kfile_ext ((\<lambda>_. ex_file0\<lparr>ftype := FD_NONE, fref := 0\<rparr>)(0 := ex_file0)) (\<lambda>_. ex_pipe) r))))"

lemma ex_file_simps [simp]:
  "idle lk (ex_file_ext r)" "cli_wf (ex_file_ext r)" "ncli (mycpu (ex_file_ext r)) = 0"
  "cproc (mycpu (ex_file_ext r)) = Some 0" "ptable (ex_file_ext r) = ex_proc # replicate 63 unused_proc"
  "pipes (ex_file_ext r) = (\<lambda>_. ex_pipe)" "files (ex_file_ext r) = (\<lambda>_. ex_file0\<lparr>ftype := FD_NONE, fref := 0\<rparr>)(0 := ex_file0)"
proof -
  show "idle lk (ex_file_ext r)" by (simp add: ex_file_ext_def)
  show "cli_wf (ex_file_ext r)" "ncli (mycpu (ex_file_ext r)) = 0" "cproc (mycpu (ex_file_ext r)) = Some 0"
    by (simp_all add: ex_file_ext_def cli_wf_def) (simp_all add: ex_bio_ext_def mycpu_def quiet_core_def)
  show "ptable (ex_file_ext r) = ex_proc # replicate 63 unused_proc" "pipes (ex_file_ext r) = (\<lambda>_. ex_pipe)"
    "files (ex_file_ext r) = (\<lambda>_. ex_file0\<lparr>ftype := FD_NONE, fref := 0\<rparr>)(0 := ex_file0)"
    by (simp_all add: ex_file_ext_def set_mycpu_def ex_bio_ext_def NPROC_def)
qed

lemma ex_pipe_rep: "pipe_rep [] 512 ex_pipe"
  by (simp add: pipe_rep_def ex_pipe_def PIPESIZE_def ring_holds_def)

theorem pipewrite_spec_witness:
  "\<exists>t. pipewrite 0x80500000 [1, 2, 3] 3 (ex_file_ext ()) = Ok 3 t \<and> pipe_rep [1, 2, 3] 509 (pipes t 0x80500000)"
  using pipewrite_spec [of "[]" 512 "ex_file_ext ()" "0x80500000" 0 "[1, 2, 3]"] ex_pipe_rep by auto

theorem piperead_spec_witness:
  "\<exists>u. piperead 0x80500000 4 (ex_file_ext ()) = Stop (Swtch u) \<and> chan (ptable u ! 0) = Some (ChNread 0x80500000)"
proof -
  have "\<not> killed ex_proc" by (simp add: ex_proc_def unused_proc_def)
  then show ?thesis
    using piperead_spec [of "[]" 512 "ex_file_ext ()" "0x80500000" 0 4] ex_pipe_rep by (auto simp: ex_pipe_def)
qed

theorem pipe_fifo_witness:
  "\<exists>t. qrun (\<lambda>b. modify (upd_pipe 0x80500000 (pipe_put b))) (pipe_take 0x80500000)
      [Enq 1, Enq 2, Enq 3, Deq, Enq 4, Deq, Deq] (ex_file_ext ()) = Ok [1, 2, 3] t \<and> pipe_rep [4] 511 (pipes t 0x80500000)"
  using pipe_fifo [of "[]" 512 "ex_file_ext ()" "0x80500000" "[Enq 1, Enq 2, Enq 3, Deq, Enq 4, Deq, Deq]" "[1, 2, 3]" "[4]" 511]
    ex_pipe_rep by (simp add: eval_nat_numeral)

end
