(* ===== verification/Proc.thy ===== *)
theory Proc
  imports File
begin

unbundle bit_operations_syntax

text \<open>
  The life of a process in proc.c: allocproc, userinit, growproc, fork, clone, exit, texit, wait,
  forkret; and the queue of threads (\<open>struct queue2\<close>) with thread_yield.

  The trap frame and the saved context of a process lie in its kernel stack page, so they are
  words of memory at the addresses \<open>tf\<close> and \<open>pcontext\<close>.  The record adds the static variables of
  proc.c and the linker symbols it uses; \<open>ptable_addr\<close> is the address of \<open>ptable.proc\<close>, from
  which a \<open>struct proc *\<close> stored in memory is an index.
\<close>

section \<open>State\<close>

datatype tfield =
    TF_edi | TF_esi | TF_ebp | TF_oesp | TF_ebx | TF_edx | TF_ecx | TF_eax
  | TF_gs | TF_fs | TF_es | TF_ds | TF_trapno | TF_err | TF_eip | TF_cs | TF_eflags | TF_esp | TF_ss

fun tf_off :: "tfield \<Rightarrow> addr" where
  "tf_off TF_edi = 0" | "tf_off TF_esi = 4" | "tf_off TF_ebp = 8" | "tf_off TF_oesp = 12"
| "tf_off TF_ebx = 16" | "tf_off TF_edx = 20" | "tf_off TF_ecx = 24" | "tf_off TF_eax = 28"
| "tf_off TF_gs = 32" | "tf_off TF_fs = 36" | "tf_off TF_es = 40" | "tf_off TF_ds = 44"
| "tf_off TF_trapno = 48" | "tf_off TF_err = 52" | "tf_off TF_eip = 56" | "tf_off TF_cs = 60"
| "tf_off TF_eflags = 64" | "tf_off TF_esp = 68" | "tf_off TF_ss = 72"

definition TF_SIZE :: nat where "TF_SIZE = 76"
definition CONTEXT_SIZE :: nat where "CONTEXT_SIZE = 20"
definition CONTEXT_eip :: addr where "CONTEXT_eip = 16"
definition PROC_SIZE :: addr where "PROC_SIZE = 132"

record kproc = kfile +
  forkret_first :: bool
  initedQ :: uint
  thQ :: addr
  ptable_addr :: addr
  sym_trapret :: addr
  sym_forkret :: addr
  sym_initcode :: addr
  initcode_size :: uint

definition tf_get :: "tfield \<Rightarrow> nat \<Rightarrow> 'e ksched_scheme \<Rightarrow> uint" where
  "tf_get f i s = ld32 (mem s) (tf (ptable s ! i) + tf_off f)"

definition tf_set :: "tfield \<Rightarrow> uint \<Rightarrow> nat \<Rightarrow> ('e ksched_scheme, unit) kop" where
  "tf_set f v i = modify (\<lambda>s. s\<lparr>mem := st32 (tf (ptable s ! i) + tf_off f) v (mem s)\<rparr>)"

text \<open>The segment registers are 16-bit fields followed by padding.\<close>

definition tf_set16 :: "tfield \<Rightarrow> ushort \<Rightarrow> nat \<Rightarrow> ('e ksched_scheme, unit) kop" where
  "tf_set16 f v i = modify (\<lambda>s.
     let a = tf (ptable s ! i) + tf_off f
     in s\<lparr>mem := (mem s)(a := ucast v, a + 1 := ucast (drop_bit 8 v))\<rparr>)"

section \<open>Creating processes\<close>

definition allocproc :: "('e kproc_scheme, nat option) kop" where
  "allocproc =
     seq (acquire PtableLock)
     (bnd (gets (\<lambda>s. find_index (\<lambda>p. state p = UNUSED) (ptable s))) (\<lambda>found.
      case found of
        None \<Rightarrow> seq (release PtableLock) (ret None)
      | Some p \<Rightarrow>
          seq (modify (upd_proc p (\<lambda>q. q\<lparr>state := EMBRYO\<rparr>)))
          (seq (modify (\<lambda>s. upd_proc p (\<lambda>q. q\<lparr>pid := nextpid s\<rparr>) s\<lparr>nextpid := nextpid s + 1\<rparr>))
          (seq (release PtableLock)
          (bnd kalloc (\<lambda>ks.
           seq (modify (upd_proc p (\<lambda>q. q\<lparr>kstack := ks\<rparr>)))
           (if ks = 0 then
              seq (modify (upd_proc p (\<lambda>q. q\<lparr>state := UNUSED\<rparr>))) (ret None)
            else
              let sp = ks + KSTACKSIZE - of_nat TF_SIZE; sp1 = sp - 4; sp2 = sp1 - of_nat CONTEXT_SIZE in
              seq (modify (upd_proc p (\<lambda>q. q\<lparr>tf := sp\<rparr>)))
              (seq (modify (\<lambda>s. s\<lparr>mem := st32 sp1 (sym_trapret s) (mem s)\<rparr>))
              (seq (modify (upd_proc p (\<lambda>q. q\<lparr>pcontext := sp2\<rparr>)))
              (seq (modify (\<lambda>s. s\<lparr>mem := memset sp2 0 (of_nat CONTEXT_SIZE) (mem s)\<rparr>))
              (seq (modify (\<lambda>s. s\<lparr>mem := st32 (sp2 + CONTEXT_eip) (sym_forkret s) (mem s)\<rparr>))
                   (ret (Some p)))))))))))))"

text \<open>
  \<open>safestrcpy\<close> into the name array: up to 15 bytes of the source before its NUL, then the NUL
  that the loop copies (if it met one) and the NUL stored after the loop.
\<close>

definition name_cpy :: "uchar list \<Rightarrow> uchar list \<Rightarrow> uchar list" where
  "name_cpy src dst =
     (let cs = takeWhile (\<lambda>c. c \<noteq> 0) (take 15 src)
      in put_at 0 (if length cs < 15 then cs @ [0, 0] else cs @ [0]) dst)"

definition initcode_name :: "uchar list" where
  "initcode_name = [0x69, 0x6e, 0x69, 0x74, 0x63, 0x6f, 0x64, 0x65, 0]"

definition userinit :: "'e kproc_scheme devsw \<Rightarrow> ('e kproc_scheme, unit) kop" where
  "userinit dv =
     bnd allocproc (\<lambda>r.
     seq (modify (\<lambda>s. s\<lparr>initproc := r\<rparr>))
     (case r of
        None \<Rightarrow> fault ''userinit''
      | Some p \<Rightarrow>
          bnd setupkvm (\<lambda>d.
          seq (modify (upd_proc p (\<lambda>q. q\<lparr>pgdir := d\<rparr>)))
          (if d = 0 then panic ''userinit: out of memory?''
           else
             bnd (gets (\<lambda>s. (sym_initcode s, initcode_size s))) (\<lambda>(code, csz).
             seq (inituvm d code csz)
             (seq (modify (upd_proc p (\<lambda>q. q\<lparr>sz := PGSIZE\<rparr>)))
             (seq (modify (\<lambda>s. s\<lparr>mem := memset (tf (ptable s ! p)) 0 (of_nat TF_SIZE) (mem s)\<rparr>))
             (seq (tf_set16 TF_cs (ucast (push_bit 3 SEG_UCODE OR DPL_USER)) p)
             (seq (tf_set16 TF_ds (ucast (push_bit 3 SEG_UDATA OR DPL_USER)) p)
             (seq (tf_set16 TF_es (ucast (push_bit 3 SEG_UDATA OR DPL_USER)) p)
             (seq (tf_set16 TF_ss (ucast (push_bit 3 SEG_UDATA OR DPL_USER)) p)
             (seq (tf_set TF_eflags FL_IF p)
             (seq (tf_set TF_esp PGSIZE p)
             (seq (tf_set TF_eip 0 p)
             (seq (modify (upd_proc p (\<lambda>q. q\<lparr>pname := name_cpy initcode_name (pname q)\<rparr>)))
             (bnd (namei dv [slash]) (\<lambda>c.
              seq (modify (upd_proc p (\<lambda>q. q\<lparr>cwd := c\<rparr>)))
                  (modify (upd_proc p (\<lambda>q. q\<lparr>state := RUNNABLE\<rparr>))))))))))))))))))))"

definition growproc :: "int \<Rightarrow> ('e kproc_scheme, int) kop" where
  "growproc n =
     bnd curproc (\<lambda>c.
     bnd (gets (\<lambda>s. (sz (ptable s ! c), pgdir (ptable s ! c)))) (\<lambda>(sz0, d).
     bnd (if n > 0 then allocuvm d sz0 (sz0 + of_int n)
          else if n < 0 then deallocuvm d sz0 (sz0 + of_int n)
          else ret sz0) (\<lambda>sz1.
     if n \<noteq> 0 \<and> sz1 = 0 then ret (- 1)
     else
       seq (modify (upd_proc c (\<lambda>q. q\<lparr>sz := sz1\<rparr>)))
       (seq (switchuvm c) (ret 0)))))"

definition dup_files :: "nat \<Rightarrow> nat \<Rightarrow> ('e kproc_scheme, unit) kop" where
  "dup_files c np =
     forM [0..<NOFILE] (\<lambda>i.
       bnd (gets (\<lambda>s. ofile (ptable s ! c) ! i)) (\<lambda>f.
       case f of
         None \<Rightarrow> ret ()
       | Some f \<Rightarrow>
           bnd (filedup f) (\<lambda>g.
           modify (upd_proc np (\<lambda>q. q\<lparr>ofile := (ofile q)[i := Some g]\<rparr>)))))"

definition copy_tf :: "nat \<Rightarrow> nat \<Rightarrow> ('e ksched_scheme, unit) kop" where
  "copy_tf c np = modify (\<lambda>s. s\<lparr>mem :=
     write_bytes (tf (ptable s ! np)) (read_bytes (mem s) (tf (ptable s ! c)) TF_SIZE) (mem s)\<rparr>)"

definition dup_cwd :: "nat \<Rightarrow> nat \<Rightarrow> ('e kproc_scheme, unit) kop" where
  "dup_cwd c np =
     bnd (gets (\<lambda>s. cwd (ptable s ! c))) (\<lambda>d.
     case d of
       None \<Rightarrow> fault ''idup''
     | Some ip \<Rightarrow> bnd (idup ip) (\<lambda>ip. modify (upd_proc np (\<lambda>q. q\<lparr>cwd := Some ip\<rparr>))))"

definition fork :: "('e kproc_scheme, int) kop" where
  "fork =
     bnd allocproc (\<lambda>r.
     case r of
       None \<Rightarrow> ret (- 1)
     | Some np \<Rightarrow>
         bnd curproc (\<lambda>c.
         bnd (gets (\<lambda>s. (pgdir (ptable s ! c), sz (ptable s ! c)))) (\<lambda>(pd, psz).
         bnd (copyuvm pd psz) (\<lambda>d.
         seq (modify (upd_proc np (\<lambda>q. q\<lparr>pgdir := d\<rparr>)))
         (if d = 0 then
            bnd (gets (\<lambda>s. kstack (ptable s ! np))) (\<lambda>ks.
            seq (kfree ks)
            (seq (modify (upd_proc np (\<lambda>q. q\<lparr>kstack := 0\<rparr>)))
            (seq (modify (upd_proc np (\<lambda>q. q\<lparr>state := UNUSED\<rparr>)))
                 (ret (- 1)))))
          else
            seq (modify (upd_proc np (\<lambda>q. q\<lparr>sz := psz, parent := Some c\<rparr>)))
            (seq (copy_tf c np)
            (seq (modify (upd_proc np (\<lambda>q. q\<lparr>isthread := 0\<rparr>)))
            (seq (tf_set TF_eax 0 np)
            (seq (dup_files c np)
            (seq (dup_cwd c np)
            (bnd (gets (\<lambda>s. pid (ptable s ! np))) (\<lambda>n.
             seq (modify (upd_proc np (\<lambda>q. q\<lparr>state := RUNNABLE\<rparr>)))
             (seq (modify (\<lambda>s. upd_proc np (\<lambda>q. q\<lparr>pname := name_cpy (pname (ptable s ! c)) (pname q)\<rparr>) s))
                  (ret n))))))))))))))"

text \<open>\<open>while(pp->isthread == 1) pp = pp->parent\<close>; a chain of more than \<open>NPROC\<close> steps is a cycle.\<close>

fun thread_root :: "nat \<Rightarrow> nat \<Rightarrow> ('e ksched_scheme, nat) kop" where
  "thread_root 0 pp = spin"
| "thread_root (Suc n) pp =
     bnd (gets (\<lambda>s. ptable s ! pp)) (\<lambda>p.
     if isthread p = 1 then
       (case parent p of None \<Rightarrow> fault ''clone'' | Some q \<Rightarrow> thread_root n q)
     else ret pp)"

definition clone :: "uint \<Rightarrow> int \<Rightarrow> uint \<Rightarrow> uint \<Rightarrow> ('e kproc_scheme, int) kop" where
  "clone stack siz routine arg =
     bnd allocproc (\<lambda>r.
     case r of
       None \<Rightarrow> ret (- 1)
     | Some np \<Rightarrow>
         if stack mod PGSIZE \<noteq> 0 \<or> stack = 0 \<or> routine = 0 then ret (- 1)
         else
           bnd curproc (\<lambda>c.
           seq (modify (\<lambda>s. upd_proc np (\<lambda>q. q\<lparr>pgdir := pgdir (ptable s ! c),
                  sz := sz (ptable s ! c), parent := Some c\<rparr>) s))
           (seq (copy_tf c np)
           (seq (modify (upd_proc np (\<lambda>q. q\<lparr>isthread := 1\<rparr>)))
           (bnd (gets (\<lambda>s. pid (ptable s ! np))) (\<lambda>n.
            bnd (thread_root (Suc NPROC) c) (\<lambda>pp.
            seq (modify (upd_proc np (\<lambda>q. q\<lparr>parent := Some pp\<rparr>)))
            (seq (dup_files c np)
            (seq (tf_set TF_eax 0 np)
            (let sp = stack + PGSIZE in
             seq (tf_set TF_ebp sp np)
             (bnd (gets (\<lambda>s. pgdir (ptable s ! np))) (\<lambda>d.
              bnd (copyout d (sp - 8) (read_bytes (st32 0 0xffffffff (st32 4 arg (\<lambda>_. 0))) 0 8)) (\<lambda>e.
              if e < 0 then ret (- 1)
              else
                seq (tf_set TF_eip routine np)
                (seq (tf_set TF_esp (sp - 8) np)
                (seq (dup_cwd c np)
                (seq (switchuvm np)
                (seq (acquire PtableLock)
                (seq (modify (upd_proc np (\<lambda>q. q\<lparr>state := RUNNABLE\<rparr>)))
                (seq (release PtableLock)
                (seq (modify (\<lambda>s. upd_proc np (\<lambda>q. q\<lparr>pname := name_cpy (pname (ptable s ! c)) (pname q)\<rparr>) s))
                     (ret n)))))))))))))))))))))"

section \<open>Ending processes\<close>

definition close_files :: "nat \<Rightarrow> ('e kproc_scheme, unit) kop" where
  "close_files c =
     forM [0..<NOFILE] (\<lambda>fd.
       bnd (gets (\<lambda>s. ofile (ptable s ! c) ! fd)) (\<lambda>f.
       case f of
         None \<Rightarrow> ret ()
       | Some f \<Rightarrow>
           seq (fileclose f)
               (modify (upd_proc c (\<lambda>q. q\<lparr>ofile := (ofile q)[fd := None]\<rparr>)))))"

text \<open>\<open>iput(proc->cwd); proc->cwd = 0\<close>, outside of any transaction.\<close>

definition drop_cwd :: "nat \<Rightarrow> ('e kproc_scheme, unit) kop" where
  "drop_cwd c =
     bnd (gets (\<lambda>s. cwd (ptable s ! c))) (\<lambda>d.
     case d of
       None \<Rightarrow> fault ''iput''
     | Some ip \<Rightarrow>
         seq (iput ip)
             (modify (upd_proc c (\<lambda>q. q\<lparr>cwd := None\<rparr>))))"

definition exit :: "('e kproc_scheme, unit) kop" where
  "exit =
     bnd (gets (\<lambda>s. (cproc (mycpu s), initproc s))) (\<lambda>(cur, ini).
     if cur = ini then panic ''init exiting''
     else
       bnd curproc (\<lambda>c.
       seq (close_files c)
       (seq (drop_cwd c)
       (seq (acquire PtableLock)
       (bnd (gets (\<lambda>s. parent (ptable s ! c))) (\<lambda>par.
        seq (wakeup1 (map_option ChProc par))
        (seq (forM [0..<NPROC] (\<lambda>i.
                bnd (gets (\<lambda>s. ptable s ! i)) (\<lambda>p.
                whenM (parent p = Some c)
                  (seq (modify (upd_proc i (\<lambda>q. q\<lparr>parent := ini\<rparr>)))
                       (whenM (state p = ZOMBIE) (wakeup1 (map_option ChProc ini)))))))
        (seq (modify (upd_proc c (\<lambda>q. q\<lparr>state := ZOMBIE\<rparr>)))
        (seq sched
             (panic ''zombie exit''))))))))))"

definition texit :: "('e kproc_scheme, unit) kop" where
  "texit =
     bnd (gets (\<lambda>s. (cproc (mycpu s), initproc s))) (\<lambda>(cur, ini).
     if cur = ini then panic ''init exiting''
     else
       bnd curproc (\<lambda>c.
       seq (close_files c)
       (seq (drop_cwd c)
       (seq (acquire PtableLock)
       (bnd (gets (\<lambda>s. parent (ptable s ! c))) (\<lambda>par.
        seq (wakeup1 (map_option ChProc par))
        (seq (modify (upd_proc c (\<lambda>q. q\<lparr>state := ZOMBIE\<rparr>)))
        (seq sched
             (panic ''zombie exit'')))))))))"

text \<open>
  The loop of \<open>wait\<close>.  The scan stops at the first child that is a zombie and changes nothing
  before; \<open>havekids\<close> is whether it met a child at all.
\<close>

definition reap :: "nat \<Rightarrow> ('e kproc_scheme, int) kop" where
  "reap i =
     bnd (gets (\<lambda>s. ptable s ! i)) (\<lambda>p.
     seq (kfree (kstack p))
     (seq (modify (upd_proc i (\<lambda>q. q\<lparr>kstack := 0\<rparr>)))
     (seq (whenM (isthread p \<noteq> 1) (freevm (pgdir p)))
     (seq (modify (upd_proc i (\<lambda>q. q\<lparr>state := UNUSED, pid := 0, parent := None,
             pname := (pname q)[0 := 0], killed := False\<rparr>)))
     (seq (release PtableLock)
          (ret (pid p)))))))"

definition wait_loop :: "('e kproc_scheme, int) kop" where
  "wait_loop =
     bnd curproc (\<lambda>c.
     bnd (gets ptable) (\<lambda>ps.
     case find_index (\<lambda>p. parent p = Some c \<and> state p = ZOMBIE) ps of
       Some i \<Rightarrow> reap i
     | None \<Rightarrow>
         if (\<forall>p \<in> set ps. parent p \<noteq> Some c) \<or> killed (ps ! c) then
           seq (release PtableLock) (ret (- 1))
         else seq (sleep (ChProc c) PtableLock) spin))"

definition wait_resume :: "('e kproc_scheme, int) kop" where
  "wait_resume = seq (sleep_tail PtableLock) wait_loop"

definition wait :: "('e kproc_scheme, int) kop" where
  "wait = seq (acquire PtableLock) wait_loop"

definition forkret :: "('e kproc_scheme, unit) kop" where
  "forkret =
     seq (release PtableLock)
     (bnd (gets forkret_first) (\<lambda>f.
      whenM f
        (seq (modify (\<lambda>s. s\<lparr>forkret_first := False\<rparr>))
             initlog)))"

section \<open>The thread queue\<close>

text \<open>
  \<open>struct queue2\<close> at \<open>q\<close>: size, head and tail at offsets 0, 4 and 8; \<open>struct node2\<close>: value and next at
  offsets 0 and 4.  A node is a whole page.  Using a null pointer is a fault.
\<close>

definition q_size :: "memory \<Rightarrow> addr \<Rightarrow> uint" where "q_size m q = ld32 m q"
definition q_head :: "memory \<Rightarrow> addr \<Rightarrow> addr" where "q_head m q = ld32 m (q + 4)"
definition q_tail :: "memory \<Rightarrow> addr \<Rightarrow> addr" where "q_tail m q = ld32 m (q + 8)"
definition n_value :: "memory \<Rightarrow> addr \<Rightarrow> addr" where "n_value m n = ld32 m n"
definition n_next :: "memory \<Rightarrow> addr \<Rightarrow> addr" where "n_next m n = ld32 m (n + 4)"

definition poke :: "addr \<Rightarrow> uint \<Rightarrow> ('e kmem_scheme, unit) kop" where
  "poke a v = modify (\<lambda>s. s\<lparr>mem := st32 a v (mem s)\<rparr>)"

definition nonnull :: "addr \<Rightarrow> ('e kmem_scheme, unit) kop" where
  "nonnull a = (if a = 0 then fault ''null pointer'' else ret ())"

definition init_q2 :: "addr \<Rightarrow> ('e kmem_scheme, unit) kop" where
  "init_q2 q =
     seq (nonnull q)
     (seq (poke q 0)
     (seq (poke (q + 4) 0)
          (poke (q + 8) 0)))"

definition add_q2 :: "addr \<Rightarrow> addr \<Rightarrow> ('e kmem_scheme, unit) kop" where
  "add_q2 q v =
     bnd kalloc2 (\<lambda>n.
     seq (nonnull n)
     (seq (poke (n + 4) 0)
     (seq (poke n v)
     (seq (nonnull q)
     (bnd (gets (\<lambda>s. (q_head (mem s) q, q_tail (mem s) q))) (\<lambda>(hd, tl).
      seq (if hd = 0 then poke (q + 4) n
           else seq (nonnull tl) (poke (tl + 4) n))
      (seq (poke (q + 8) n)
           (bnd (gets (\<lambda>s. q_size (mem s) q)) (\<lambda>k. poke q (k + 1))))))))))"

definition empty_q2 :: "addr \<Rightarrow> ('e kmem_scheme, bool) kop" where
  "empty_q2 q = seq (nonnull q) (gets (\<lambda>s. q_size (mem s) q = 0))"

definition pop_q2 :: "addr \<Rightarrow> ('e kmem_scheme, addr) kop" where
  "pop_q2 q =
     bnd (empty_q2 q) (\<lambda>e.
     if e then ret 0
     else
       bnd (gets (\<lambda>s. q_head (mem s) q)) (\<lambda>h.
       seq (nonnull h)
       (bnd (gets (\<lambda>s. n_value (mem s) h)) (\<lambda>val.
        seq (bnd (gets (\<lambda>s. n_next (mem s) h)) (\<lambda>nx. poke (q + 4) nx))
        (seq (kfree2 h)
        (seq (bnd (gets (\<lambda>s. q_size (mem s) q)) (\<lambda>k. poke q (k - 1)))
        (bnd (gets (\<lambda>s. q_size (mem s) q)) (\<lambda>k.
         seq (whenM (k = 0) (seq (poke (q + 4) 0) (poke (q + 8) 0)))
             (ret val)))))))))"

definition proc_ptr :: "'e kproc_scheme \<Rightarrow> nat \<Rightarrow> addr" where
  "proc_ptr s i = ptable_addr s + PROC_SIZE * of_nat i"

definition proc_of :: "addr \<Rightarrow> ('e kproc_scheme, nat) kop" where
  "proc_of a =
     seq (nonnull a) (gets (\<lambda>s. unat ((a - ptable_addr s) div PROC_SIZE)))"

definition thread_yield_tail :: "bool \<Rightarrow> ('e kproc_scheme, unit) kop" where
  "thread_yield_tail ie =
     seq (modify (set_mycpu (\<lambda>c. c\<lparr>intena := ie\<rparr>)))
     (bnd (gets (holding PtableLock)) (\<lambda>h.
      whenM h (release PtableLock)))"

text \<open>\<open>thread_yield\<close>; its \<open>cprintf\<close> calls read \<open>thQ->size\<close> and the fields of \<open>p\<close>.\<close>

definition thread_yield :: "('e kproc_scheme, unit) kop" where
  "thread_yield =
     bnd curproc (\<lambda>c.
     bnd (gets (\<lambda>s. (initedQ s, thQ s))) (\<lambda>(ini, q).
     seq (whenM (ini = 0)
            (seq (init_q2 q)
                 (modify (\<lambda>s. s\<lparr>initedQ := initedQ s + 1\<rparr>))))
     (bnd (gets (holding PtableLock)) (\<lambda>h.
      seq (whenM (\<not> h) (acquire PtableLock))
      (seq (nonnull q)
      (bnd (pop_q2 q) (\<lambda>v.
       bnd (proc_of v) (\<lambda>p.
       bnd (gets (\<lambda>s. pid (ptable s ! p) = pid (ptable s ! c))) (\<lambda>same.
       bnd (if same then bnd (pop_q2 q) proc_of else ret p) (\<lambda>p.
       seq (modify (upd_proc c (\<lambda>x. x\<lparr>state := RUNNABLE\<rparr>)))
       (seq (bnd (gets (\<lambda>s. proc_ptr s c)) (\<lambda>a. add_q2 q a))
       (seq (modify (set_mycpu (\<lambda>x. x\<lparr>cproc := Some p\<rparr>)))
       (seq (modify (upd_proc p (\<lambda>x. x\<lparr>state := RUNNING\<rparr>)))
       (bnd (gets (\<lambda>s. intena (mycpu s))) (\<lambda>ie.
        seq swtch (thread_yield_tail ie))))))))))))))))"

end
