(* ===== verification/Cells.thy ===== *)
theory Cells
  imports Kalloc
begin

text \<open>
  Words inside pages of the allocator: alignment, which page a word lies in, and which words a store leaves alone.  The linked
  list of threads and the page tables both live in such pages.
\<close>

section \<open>Words and pages\<close>

lemma aligned_add:
  assumes "(a :: addr) mod 4 = 0" and "unat i mod 4 = 0"
  shows "(a + i) mod 4 = 0"
proof -
  have "unat a mod 4 = 0" using assms(1) by (simp add: word_unat_eq_iff unat_mod)
  then have "(unat a + unat i) mod 4 = 0" using assms(2) by (simp add: mod_add_eq [symmetric])
  moreover have "(4 :: nat) dvd 2 ^ 32" by simp
  ultimately have "unat (a + i) mod 4 = 0" by (simp only: unat_word_ariths) (simp add: mod_mod_cancel)
  then show ?thesis by (simp add: word_unat_eq_iff unat_mod)
qed

definition word_al :: "addr \<Rightarrow> bool" where
  "word_al a \<longleftrightarrow> a mod 4 = 0"

lemma word_al_add: "word_al a \<Longrightarrow> word_al (a + 4)" "word_al a \<Longrightarrow> word_al (a + 8)"
  unfolding word_al_def by (rule aligned_add; simp)+

lemma ld32_st32: "word_al a \<Longrightarrow> word_al b \<Longrightarrow> ld32 (st32 b v m) a = (if a = b then v else ld32 m a)"
  by (simp add: word_al_def)

lemma word_in_page:
  assumes "a mod 4 = 0" and "unat i < 4"
  shows "PGROUNDDOWN (a + i) = PGROUNDDOWN a"
proof -
  obtain k where k: "unat a = 4 * k" using assms(1) by (auto simp: word_unat_eq_iff unat_mod)
  have "unat (a + i) div 4096 = unat a div 4096"
    unfolding unat_aligned_add [OF assms] k using assms(2) by (simp add: div_mult2_eq [of _ 4 1024, simplified])
  then show ?thesis by (simp add: word_unat_eq_iff unat_PGROUNDDOWN)
qed

lemma page_cells:
  assumes "p mod PGSIZE = 0"
  shows "PGROUNDDOWN p = p" and "PGROUNDDOWN (p + 4) = p"
  using page_offset [OF assms, of p] page_offset [OF assms, of "p + 4"] by (simp_all add: PGSIZE_def)

lemma ld32_outside:
  assumes "a mod 4 = 0" and "p mod PGSIZE = 0" and "PGROUNDDOWN a \<noteq> p" and "\<And>x. \<not> x - p < PGSIZE \<Longrightarrow> m' x = m x"
  shows "ld32 m' a = ld32 m a"
proof (rule ld32_cong)
  have "m' (a + i) = m (a + i)" if "unat i < 4" for i
    using that assms by (intro assms(4)) (simp add: page_offset word_in_page)
  from this [of 0] this [of 1] this [of 2] this [of 3]
  show "m' a = m a" "m' (a + 1) = m (a + 1)" "m' (a + 2) = m (a + 2)" "m' (a + 3) = m (a + 3)" by simp_all
qed

lemma kpage_cells:
  assumes "kpage s p"
  shows "word_al p" and "word_al (p + 4)" and "PGROUNDDOWN p = p" and "PGROUNDDOWN (p + 4) = p" and "p \<noteq> 0"
proof -
  have p: "p mod PGSIZE = 0" using assms unfolding kpage_def by blast
  show w: "word_al p" unfolding word_al_def by (rule kpage_aligned4 [OF assms])
  show "word_al (p + 4)" by (rule word_al_add(1) [OF w])
  show "PGROUNDDOWN p = p" "PGROUNDDOWN (p + 4) = p" using page_cells [OF p] by blast+
  show "p \<noteq> 0" by (rule kpage_nonzero [OF assms])
qed

lemma kpages_apart:
  assumes "kpage s p" and "kpage s p'"
  shows "p \<noteq> p' + 4"
proof
  assume "p = p' + 4"
  then have "p = p'" using kpage_cells(3) [OF assms(1)] kpage_cells(4) [OF assms(2)] by simp
  with \<open>p = p' + 4\<close> show False by simp
qed

lemma kmem_ready_mem:
  assumes "kmem_ready s ps" and "\<And>p. p \<in> set ps \<Longrightarrow> ld32 m p = ld32 (mem s) p"
  shows "kmem_ready (s\<lparr>mem := m\<rparr>) ps"
  using assms freechain_frame [of "mem s" "freelist s" ps m]
  by (simp add: kmem_ready_def kmem_wf_def idle_def cli_wf_def mycpu_def)

end
