(* ===== verification/Threadq.thy ===== *)
theory Threadq
  imports Proc Fifo Cells
begin

text \<open>
  The queue of threads of proc.c lives in kernel memory: a header of three words and one page per node, taken from and
  given back to the page allocator.  It is a first-in first-out queue as long as free pages last.
\<close>

section \<open>The queue in memory\<close>

fun qchain :: "memory \<Rightarrow> addr list \<Rightarrow> addr list \<Rightarrow> bool" where
  "qchain m [] [] = True"
| "qchain m (n # ns) (x # xs) \<longleftrightarrow>
     n_value m n = x \<and> n_next m n = (case ns of [] \<Rightarrow> 0 | n' # _ \<Rightarrow> n') \<and> qchain m ns xs"
| "qchain m _ _ = False"

definition qcells :: "addr \<Rightarrow> addr set" where
  "qcells q = {q, q + 4, q + 8}"

definition q2_nodes :: "addr \<Rightarrow> addr list \<Rightarrow> addr list \<Rightarrow> addr list \<Rightarrow> 'e kmem_scheme \<Rightarrow> bool" where
  "q2_nodes q xs ns ps s \<longleftrightarrow> kmem_ready s ps \<and> distinct ns \<and> set ns \<inter> set ps = {} \<and> (\<forall>n \<in> set ns. kpage s n) \<and>
     q \<noteq> 0 \<and> word_al q \<and> (\<forall>a \<in> qcells q. PGROUNDDOWN a \<notin> set ns \<union> set ps) \<and>
     qchain (mem s) ns xs \<and> length xs < 2 ^ 32 \<and> q_size (mem s) q = of_nat (length xs) \<and>
     (if ns = [] then q_head (mem s) q = 0 \<and> q_tail (mem s) q = 0
      else q_head (mem s) q = hd ns \<and> q_tail (mem s) q = last ns)"

definition q2_rep :: "addr \<Rightarrow> addr list \<Rightarrow> nat \<Rightarrow> 'e kmem_scheme \<Rightarrow> bool" where
  "q2_rep q xs k s \<longleftrightarrow> (\<exists>ns ps. q2_nodes q xs ns ps s \<and> length ps = k \<and> length xs + k < 2 ^ 32)"

lemma qchain_length: "qchain m ns xs \<Longrightarrow> length ns = length xs"
  by (induction m ns xs rule: qchain.induct) simp_all

lemma qchain_cong:
  "qchain m ns xs \<Longrightarrow> (\<And>n. n \<in> set ns \<Longrightarrow> ld32 m' n = ld32 m n \<and> ld32 m' (n + 4) = ld32 m (n + 4)) \<Longrightarrow> qchain m' ns xs"
  by (induction m ns xs rule: qchain.induct) (auto simp: n_value_def n_next_def)

lemma qchain_snoc:
  assumes "qchain m ns xs" and "ns \<noteq> []" and "\<And>n. n \<in> set ns \<Longrightarrow> ld32 m' n = ld32 m n"
    and "\<And>n. n \<in> set (butlast ns) \<Longrightarrow> ld32 m' (n + 4) = ld32 m (n + 4)"
    and "ld32 m' (last ns + 4) = a" and "ld32 m' a = x" and "ld32 m' (a + 4) = 0" and "distinct ns"
  shows "qchain m' (ns @ [a]) (xs @ [x])"
  using assms
proof (induction m ns xs rule: qchain.induct)
  case (2 m n ns x' xs)
  show ?case
  proof (cases ns)
    case Nil
    with 2 show ?thesis by (cases xs) (simp_all add: n_value_def n_next_def)
  next
    case (Cons n' ns')
    with 2 show ?thesis by (auto simp: n_value_def n_next_def)
  qed
qed simp_all


section \<open>The operations\<close>

lemma init_q2_empty:
  assumes "kmem_ready s ps" and "q \<noteq> 0" and "word_al q" and "\<forall>a \<in> qcells q. PGROUNDDOWN a \<notin> set ps"
  shows "\<exists>t. init_q2 q s = Ok () t \<and> q2_nodes q [] [] ps t"
proof -
  let ?m = "st32 (q + 8) 0 (st32 (q + 4) 0 (st32 q 0 (mem s)))"
  note al = assms(3) word_al_add [OF assms(3)]
  have "ld32 ?m p = ld32 (mem s) p" if "p \<in> set ps" for p
  proof -
    have "kpage s p" using assms(1) that by (simp add: kmem_ready_def kmem_wf_def)
    note c = kpage_cells [OF this]
    have "q \<noteq> p" "q + 4 \<noteq> p" "q + 8 \<noteq> p" using assms(4) that c(3) by (auto simp: qcells_def)
    then show ?thesis using al c(1) by (simp add: ld32_st32)
  qed
  then have "kmem_ready (s\<lparr>mem := ?m\<rparr>) ps" by (rule kmem_ready_mem [OF assms(1)])
  then show ?thesis using assms al
    by (simp add: init_q2_def nonnull_def poke_def seq_apply q2_nodes_def q_size_def q_head_def q_tail_def ld32_st32)
qed

text \<open>The words of the header and of the pages are apart.\<close>

lemma q2_nodesD:
  assumes "q2_nodes q xs ns ps s"
  shows "kmem_ready s ps" and "qchain (mem s) ns xs" and "q_size (mem s) q = of_nat (length xs)" and "q \<noteq> 0"
    and "distinct ns" and "set ns \<inter> set ps = {}" and "\<And>n. n \<in> set ns \<Longrightarrow> kpage s n"
    and "ns = [] \<Longrightarrow> q_head (mem s) q = 0 \<and> q_tail (mem s) q = 0"
    and "ns \<noteq> [] \<Longrightarrow> q_head (mem s) q = hd ns \<and> q_tail (mem s) q = last ns"
    and "word_al q" and "word_al (q + 4)" and "word_al (q + 8)"
    and "\<And>p. p \<in> set ps \<Longrightarrow> kpage s p" and "distinct ps"
  using assms word_al_add [of q] by (auto simp: q2_nodes_def kmem_ready_def kmem_wf_def)

lemma q2_apart:
  assumes "q2_nodes q xs ns ps s" and "p \<in> set ns \<or> p \<in> set ps"
  shows "q \<noteq> p" and "q + 4 \<noteq> p" and "q + 8 \<noteq> p" and "q \<noteq> p + 4" and "q + 4 \<noteq> p + 4" and "q + 8 \<noteq> p + 4"
    and "PGROUNDDOWN q \<noteq> p" and "PGROUNDDOWN (q + 4) \<noteq> p" and "PGROUNDDOWN (q + 8) \<noteq> p"
proof -
  have "kpage s p" using assms(2) q2_nodesD(7,13) [OF assms(1)] by blast
  note c = kpage_cells [OF this]
  have p: "PGROUNDDOWN a \<noteq> p" if "a \<in> qcells q" for a using assms that by (auto simp: q2_nodes_def)
  show "PGROUNDDOWN q \<noteq> p" "PGROUNDDOWN (q + 4) \<noteq> p" "PGROUNDDOWN (q + 8) \<noteq> p" using p by (simp_all add: qcells_def)
  then show "q \<noteq> p" "q + 4 \<noteq> p" "q + 8 \<noteq> p" "q \<noteq> p + 4" "q + 4 \<noteq> p + 4" "q + 8 \<noteq> p + 4" using c(3,4) by metis+
qed

lemma add_q2_nodes:
  assumes N: "q2_nodes q xs ns (a # ps) s" and len: "Suc (length xs) < 2 ^ 32"
  shows "\<exists>t. add_q2 q v s = Ok () t \<and> q2_nodes q (xs @ [v]) (ns @ [a]) ps t"
proof -
  note D = q2_nodesD [OF N]
  let ?s = "maybe_settled (s\<lparr>freelist := ld32 (mem s) a\<rparr>)"
  note al = kalloc_Cons [OF D(1)]
  have ka: "kpage s a" using D(13) by simp
  note ca = kpage_cells [OF ka] and qa = q2_apart [OF N, of a, simplified]
  define x where "x = (if ns = [] then q + 4 else last ns + 4)"
  have kl: "kpage s (last ns)" if "ns \<noteq> []" using D(7) that by simp
  have xw: "word_al x" using D(11) kpage_cells(2) [OF kl] by (auto simp: x_def)
  have xq: "q \<noteq> x" "q + 8 \<noteq> x"
  proof -
    have "q \<noteq> x \<and> q + 8 \<noteq> x"
    proof (cases "ns = []")
      case False
      then have "last ns \<in> set ns \<or> last ns \<in> set (a # ps)" by simp
      from q2_apart(4,6) [OF N this] False show ?thesis by (simp add: x_def)
    qed (simp add: x_def)
    then show "q \<noteq> x" "q + 8 \<noteq> x" by simp_all
  qed
  have xp: "p \<noteq> x" if p: "p \<in> set ns \<or> p \<in> set (a # ps)" for p
  proof (cases "ns = []")
    case True
    then show ?thesis using q2_apart(2) [OF N p] by (simp add: x_def)
  next
    case False
    have "kpage s p" using p D(7,13) by blast
    from kpages_apart [OF this kl [OF False]] False show ?thesis by (simp add: x_def)
  qed
  let ?m1 = "st32 a v (st32 (a + 4) 0 (mem s))"
  let ?m = "st32 q (q_size (mem s) q + 1) (st32 (q + 8) a (st32 x a ?m1))"
  have e1: "q_head ?m1 q = q_head (mem s) q" "q_tail ?m1 q = q_tail (mem s) q"
    using D(10-12) ca qa by (simp_all add: q_head_def q_tail_def ld32_st32)
  have sz: "q_size (st32 (q + 8) a (st32 x a ?m1)) q = q_size (mem s) q"
    using D(10-12) ca qa xw xq by (simp add: q_size_def ld32_st32)
  have hd: "hd ns \<noteq> 0 \<and> last ns \<noteq> 0" if "ns \<noteq> []" using D(7) [of "hd ns"] D(7) [of "last ns"] kpage_nonzero that by auto
  have "add_q2 q v s = Ok () (?s\<lparr>mem := ?m\<rparr>)"
  proof (cases "ns = []")
    case True
    then show ?thesis using al(1) ca(5) D(4,8) e1 sz
      by (simp add: add_q2_def kalloc2_kalloc nonnull_def poke_def seq_apply bnd_apply x_def)
  next
    case False
    then show ?thesis using al(1) ca(5) D(4,9) e1 sz hd
      by (simp add: add_q2_def kalloc2_kalloc nonnull_def poke_def seq_apply bnd_apply x_def)
  qed
  moreover have "q2_nodes q (xs @ [v]) (ns @ [a]) ps (?s\<lparr>mem := ?m\<rparr>)"
  proof -
    have pg: "ld32 ?m p = (if p = a then v else ld32 (mem s) p)" if p: "p \<in> set ns \<or> p \<in> set (a # ps)" for p
    proof -
      have kp: "kpage s p" using p D(7,13) by blast
      have "p \<noteq> q" "p \<noteq> q + 8" using q2_apart(1,3) [OF N p] by blast+
      then show ?thesis using xp [OF p] kpages_apart [OF kp ka] kpage_cells(1) [OF kp] D(10,12) ca(1,2) xw by (simp add: ld32_st32)
    qed
    have nx: "ld32 ?m (p + 4) = (if p = a then 0 else if p + 4 = x then a else ld32 (mem s) (p + 4))"
      if p: "p \<in> set ns \<or> p = a" for p
    proof -
      have p': "p \<in> set ns \<or> p \<in> set (a # ps)" using p by auto
      have kp: "kpage s p" using p' D(7,13) by blast
      have "p + 4 \<noteq> q" "p + 4 \<noteq> q + 8" "p + 4 \<noteq> q + 4" using q2_apart(4-6) [OF N p'] by metis+
      moreover have "p + 4 \<noteq> a" using kpages_apart [OF ka kp] by metis
      moreover have "x \<noteq> a + 4"
      proof (cases "ns = []")
        case True
        then show ?thesis using qa(5) by (simp add: x_def)
      next
        case False
        then have "last ns \<noteq> a" using D(6) by auto
        then show ?thesis using False by (simp add: x_def)
      qed
      ultimately show ?thesis using kpage_cells(2) [OF kp] D(10,12) ca(1,2) xw by (simp add: ld32_st32)
    qed
    have chain: "qchain ?m (ns @ [a]) (xs @ [v])"
    proof (cases "ns = []")
      case True
      then have "xs = []" using qchain_length [OF D(2)] by simp
      then show ?thesis using True pg [of a] nx [of a] by (simp add: n_value_def n_next_def)
    next
      case False
      have na: "a \<notin> set ns" using D(6) by auto
      have bl: "n \<in> set ns \<and> n \<noteq> last ns" if "n \<in> set (butlast ns)" for n
        using that D(5) False by (metis append_butlast_last_id distinct_append disjoint_iff in_set_butlastD list.set_intros(1))
      show ?thesis
      proof (rule qchain_snoc [OF D(2) False _ _ _ _ _ D(5)])
        show "ld32 ?m n = ld32 (mem s) n" if "n \<in> set ns" for n using pg [of n] that na by auto
        show "ld32 ?m (n + 4) = ld32 (mem s) (n + 4)" if "n \<in> set (butlast ns)" for n
          using nx [of n] bl [OF that] na False by (auto simp: x_def)
        show "ld32 ?m (last ns + 4) = a" using nx [of "last ns"] na False by (auto simp: x_def)
        show "ld32 ?m a = v" using pg [of a] by simp
        show "ld32 ?m (a + 4) = 0" using nx [of a] by simp
      qed
    qed
    have rdy: "kmem_ready (?s\<lparr>mem := ?m\<rparr>) ps"
    proof (rule kmem_ready_mem [OF al(2)])
      fix p assume "p \<in> set ps"
      moreover from this have "p \<noteq> a" using D(14) by auto
      ultimately show "ld32 ?m p = ld32 (mem ?s) p" using pg [of p] by simp
    qed
    have "q_head ?m q = hd (ns @ [a])"
      using D(8,9,10,11,12) ca(1,2) qa xw q2_apart [OF N, of "last ns"]
      by (cases "ns = []") (simp_all add: x_def q_head_def ld32_st32)
    moreover have "q_tail ?m q = a"
      using D(10,12) by (simp add: q_tail_def ld32_st32)
    moreover have "q_size ?m q = of_nat (length (xs @ [v]))"
      using D(3,10) by (simp add: q_size_def ld32_st32)
    moreover have "distinct (ns @ [a])" "set (ns @ [a]) \<inter> set ps = {}" "\<forall>n \<in> set (ns @ [a]). kpage s n"
      using D(5,6,7,14) ka by auto
    moreover have "\<forall>b \<in> qcells q. PGROUNDDOWN b \<notin> set (ns @ [a]) \<union> set ps" using N by (auto simp: q2_nodes_def)
    ultimately show ?thesis using rdy chain D(4,10) len by (simp add: q2_nodes_def)
  qed
  ultimately show ?thesis by blast
qed

lemma of_nat_word_eq_0: "k < 2 ^ 32 \<Longrightarrow> (of_nat k :: addr) = 0 \<longleftrightarrow> k = 0"
  by (simp add: word_unat_eq_iff unat_of_nat)

lemma pop_q2_nodes:
  assumes N: "q2_nodes q (x # xs) (n # ns) ps s"
  shows "\<exists>t. pop_q2 q s = Ok x t \<and> q2_nodes q xs ns (n # ps) t"
proof -
  note D = q2_nodesD [OF N]
  have kn: "kpage s n" using D(7) by simp
  note cn = kpage_cells [OF kn] and qn = q2_apart [OF N, of n, simplified]
  have len: "length (x # xs) < 2 ^ 32" using N unfolding q2_nodes_def by blast
  have hd: "q_head (mem s) q = n" and tl: "q_tail (mem s) q = last (n # ns)" using D(9) by auto
  have sz: "q_size (mem s) q \<noteq> 0" using D(3) of_nat_word_eq_0 [OF len] by simp
  define nx where "nx = n_next (mem s) n"
  have nx: "nx = (case ns of [] \<Rightarrow> 0 | n' # _ \<Rightarrow> n')" and val: "n_value (mem s) n = x" and ch: "qchain (mem s) ns xs"
    using D(2) by (simp_all add: nx_def)
  let ?s1 = "s\<lparr>mem := st32 (q + 4) nx (mem s)\<rparr>"
  have pa: "p \<noteq> q" "p \<noteq> q + 4" "p \<noteq> q + 8" "p + 4 \<noteq> q" "p + 4 \<noteq> q + 4" "p + 4 \<noteq> q + 8"
    if "p \<in> set (n # ns) \<or> p \<in> set ps" for p
    using q2_apart(1-6) [OF N that] by metis+
  have r1: "kmem_ready ?s1 ps"
  proof (rule kmem_ready_mem [OF D(1)])
    fix p assume p: "p \<in> set ps"
    then show "ld32 (st32 (q + 4) nx (mem s)) p = ld32 (mem s) p"
      using pa(2) [of p] kpage_cells(1) [OF D(13) [OF p]] D(11) by (simp add: ld32_st32)
  qed
  have k1: "kpage ?s1 n" using kn by (simp add: kpage_def)
  have nps: "n \<notin> set ps" using D(6) by auto
  note kf = kfree_Ok [OF r1 k1] and r2 = kfree_ready [OF r1 k1 nps]
  define m2 where "m2 = mem (freed n ?s1)"
  have out: "ld32 m2 a = (if a = q + 4 then nx else ld32 (mem s) a)" if a: "word_al a" "PGROUNDDOWN a \<noteq> n" for a
  proof -
    have pn: "n mod PGSIZE = 0" using kn unfolding kpage_def by blast
    have "ld32 m2 a = ld32 (st32 (q + 4) nx (mem s)) a"
      by (rule ld32_outside [OF a(1) [unfolded word_al_def] pn a(2)]) (simp add: m2_def kfree_mem_frame [OF pn])
    then show ?thesis using a(1) D(11) by (simp add: ld32_st32)
  qed
  let ?m3 = "st32 q (q_size m2 q - 1) m2"
  let ?m = "if xs = [] then st32 (q + 8) 0 (st32 (q + 4) 0 ?m3) else ?m3"
  have s2: "q_size m2 q = of_nat (length (x # xs))" using out [OF D(10) qn(7)] D(3) by (simp add: q_size_def)
  have s3: "q_size ?m3 q = of_nat (length xs)" using s2 D(10) by (simp add: q_size_def ld32_st32)
  have z3: "q_size ?m3 q = 0 \<longleftrightarrow> xs = []" using s3 of_nat_word_eq_0 [of "length xs"] len by simp
  have "pop_q2 q s = Ok x ((freed n ?s1)\<lparr>mem := ?m\<rparr>)"
    using sz hd cn(5) D(4) val z3 kf unfolding nx_def m2_def
    by (cases "xs = []") (simp_all add: pop_q2_def empty_q2_def kfree2_kfree nonnull_def poke_def seq_apply bnd_apply whenM_def)
  moreover have "q2_nodes q xs ns (n # ps) ((freed n ?s1)\<lparr>mem := ?m\<rparr>)"
  proof -
    have in_m: "ld32 ?m a = ld32 m2 a" if "word_al a" "a \<noteq> q" "a \<noteq> q + 4" "a \<noteq> q + 8" for a
      using that D(10-12) by (simp add: ld32_st32)
    have rdy: "kmem_ready ((freed n ?s1)\<lparr>mem := ?m\<rparr>) (n # ps)"
    proof (rule kmem_ready_mem [OF r2])
      fix p assume p: "p \<in> set (n # ps)"
      then have p': "p \<in> set (n # ns) \<or> p \<in> set ps" by auto
      then have "kpage s p" using D(7,13) by blast
      from in_m [OF kpage_cells(1) [OF this] pa(1-3) [OF p']] show "ld32 ?m p = ld32 (mem (freed n ?s1)) p"
        by (simp add: m2_def)
    qed
    have chain: "qchain ?m ns xs"
    proof (rule qchain_cong [OF ch])
      fix p assume p: "p \<in> set ns"
      then have p': "p \<in> set (n # ns) \<or> p \<in> set ps" by auto
      have kp: "kpage s p" using p D(7) by simp
      note c = kpage_cells [OF kp]
      have "p \<noteq> n" using p D(5) by auto
      then have "ld32 m2 p = ld32 (mem s) p" "ld32 m2 (p + 4) = ld32 (mem s) (p + 4)"
        using out [OF c(1)] out [OF c(2)] c(3,4) pa [OF p'] by simp_all
      then show "ld32 ?m p = ld32 (mem s) p \<and> ld32 ?m (p + 4) = ld32 (mem s) (p + 4)"
        using in_m [OF c(1) pa(1-3) [OF p']] in_m [OF c(2) pa(4-6) [OF p']] by metis
    qed
    have lx: "length ns = length xs" by (rule qchain_length [OF ch])
    have "q_size ?m q = of_nat (length xs)" using s3 D(10-12) by (simp add: q_size_def ld32_st32)
    moreover have "q_head ?m q = (case ns of [] \<Rightarrow> 0 | n' # _ \<Rightarrow> n')"
      using out [OF D(11) qn(8)] D(10-12) nx lx by (auto simp: q_head_def ld32_st32 split: list.split)
    moreover have "q_tail ?m q = (if ns = [] then 0 else last ns)"
      using out [OF D(12) qn(9)] D(10-12) tl lx by (auto simp: q_tail_def ld32_st32)
    moreover have "distinct ns" "set ns \<inter> set (n # ps) = {}" "\<forall>a \<in> set ns. kpage s a"
      using D(5,6,7) by auto
    moreover have "\<forall>b \<in> qcells q. PGROUNDDOWN b \<notin> set ns \<union> set (n # ps)" using N by (auto simp: q2_nodes_def)
    ultimately show ?thesis using rdy chain D(4,10) len by (auto simp: q2_nodes_def kpage_def split: list.split)
  qed
  ultimately show ?thesis by blast
qed

lemma pop_q2_empty: "q2_nodes q [] ns ps s \<Longrightarrow> pop_q2 q s = Ok 0 s"
  using q2_nodesD(3,4) [of q "[]" ns ps s] by (simp add: pop_q2_def empty_q2_def nonnull_def)

lemma add_q2_no_memory: "q2_nodes q xs ns [] s \<Longrightarrow> add_q2 q v s = Stop (Fault ''null pointer'')"
  using kalloc_Nil [OF q2_nodesD(1), of q xs ns s] by (simp add: add_q2_def kalloc2_kalloc nonnull_def)

text \<open>The places left are the free pages.\<close>

interpretation thq: fifo "add_q2 q" "pop_q2 q" "q2_rep q"
proof unfold_locales
  fix xs :: "addr list" and k and s :: "'a kmem_scheme" and v
  assume "q2_rep q xs (Suc k) s"
  then obtain ns a ps where N: "q2_nodes q xs ns (a # ps) s" "length ps = k" "length xs + Suc k < 2 ^ 32"
    unfolding q2_rep_def by (metis length_Suc_conv)
  then have "Suc (length xs) < 2 ^ 32" by simp
  from add_q2_nodes [OF N(1) this] N(2,3) show "\<exists>t. add_q2 q v s = Ok () t \<and> q2_rep q (xs @ [v]) k t"
    unfolding q2_rep_def by fastforce
next
  fix x and xs :: "addr list" and k and s :: "'a kmem_scheme"
  assume "q2_rep q (x # xs) k s"
  then obtain ns ps where N: "q2_nodes q (x # xs) ns ps s" "length ps = k" "length (x # xs) + k < 2 ^ 32"
    unfolding q2_rep_def by blast
  moreover from qchain_length [OF q2_nodesD(2) [OF N(1)]] obtain n ns' where "ns = n # ns'" by (cases ns) auto
  ultimately obtain t where "pop_q2 q s = Ok x t" "q2_nodes q xs ns' (n # ps) t" using pop_q2_nodes by blast
  with N(2,3) show "\<exists>t. pop_q2 q s = Ok x t \<and> q2_rep q xs (Suc k) t"
    unfolding q2_rep_def by (metis add_Suc_right add_Suc length_Cons)
qed

text \<open>
  C11 (thread queue). After \<open>init_q2\<close> every sequence of \<open>add_q2\<close> and \<open>pop_q2\<close> that neither takes from the empty queue nor adds
  more than there are free pages returns the values in the order they were added, on the linked list in kernel memory.  At the
  end, taking from an empty queue returns 0, and adding with no page left dereferences the null page of \<open>kalloc2\<close>.
\<close>

theorem thread_queue_fifo:
  assumes "kmem_ready s ps" and "q \<noteq> 0" and "q mod 4 = 0" and "\<forall>a \<in> {q, q + 4, q + 8}. PGROUNDDOWN a \<notin> set ps"
    and "length ps < 2 ^ 32" and "qspec [] (length ps) ops = Some (vs, ys, j)"
  shows "\<exists>t u. init_q2 q s = Ok () t \<and> qrun (add_q2 q) (pop_q2 q) ops t = Ok vs u \<and> q2_rep q ys j u
    \<and> (ys = [] \<longrightarrow> pop_q2 q u = Ok 0 u) \<and> (j = 0 \<longrightarrow> add_q2 q v u = Stop (Fault ''null pointer''))"
proof -
  from init_q2_empty [OF assms(1,2)] assms(3,4)
  obtain t where t: "init_q2 q s = Ok () t" "q2_nodes q [] [] ps t" by (auto simp: word_al_def qcells_def)
  then have "q2_rep q [] (length ps) t" using assms(5) unfolding q2_rep_def by auto
  from thq.qrun_refines [OF this assms(6)]
  obtain u where u: "qrun (add_q2 q) (pop_q2 q) ops t = Ok vs u" "q2_rep q ys j u" by blast
  then show ?thesis using t(1) pop_q2_empty add_q2_no_memory unfolding q2_rep_def by fastforce
qed

theorem thread_queue_fifo_witness:
  "\<exists>t u. init_q2 0x80300000 ex_kmem = Ok () t
     \<and> qrun (add_q2 0x80300000) (pop_q2 0x80300000) [Enq 5, Deq, Enq 6, Deq] t = Ok [5, 6] u \<and> pop_q2 0x80300000 u = Ok 0 u"
  using thread_queue_fifo [OF ex_kmem_ready, of "0x80300000" "[Enq 5, Deq, Enq 6, Deq]" "[5, 6]" "[]" 1 0]
  by (auto simp: PGROUNDDOWN_def PGSIZE_def)

end
