(* ===== verification/Pagetable.thy ===== *)
theory Pagetable
  imports Vm Cells
begin

unbundle bit_operations_syntax

text \<open>
  What the page tables of vm.c mean: \<open>pt_lookup\<close> is the translation the hardware makes of a user address, and the operations on
  page tables are specified by their effect on it.
\<close>

section \<open>Indices and entries\<close>

lemma unat_and_mask: "unat ((a :: uint) AND mask n) = unat a mod 2 ^ n"
proof -
  have "a AND mask n = take_bit n a" by (simp add: take_bit_eq_mask)
  moreover have "unat (take_bit n a) = take_bit n (unat a)" by (simp only: unsigned_take_bit_eq)
  ultimately show ?thesis by (simp only: take_bit_eq_mod)
qed

lemma unat_PDX: "unat (PDX va) = unat va div 2 ^ 22"
proof -
  have m: "(0x3FF :: uint) = mask 10" by (simp add: mask_eq_exp_minus_1)
  have "unat va div 2 ^ 22 < 2 ^ 10" using unsigned_less [of va, where 'a = nat] by (simp add: less_mult_imp_div_less)
  then show ?thesis unfolding PDX_def m unat_and_mask by (simp add: drop_bit_eq_div unat_div)
qed

lemma unat_PTX: "unat (PTX va) = unat va div 4096 mod 1024"
proof -
  have m: "(0x3FF :: uint) = mask 10" by (simp add: mask_eq_exp_minus_1)
  show ?thesis unfolding PTX_def m unat_and_mask by (simp add: drop_bit_eq_div unat_div)
qed

lemma index_bounds: "unat (PDX va) < 1024" "unat (PTX va) < 1024"
  using unsigned_less [of va, where 'a = nat] by (simp_all add: unat_PDX unat_PTX less_mult_imp_div_less)

lemma same_page: "PGROUNDDOWN a = PGROUNDDOWN b \<longleftrightarrow> PDX a = PDX b \<and> PTX a = PTX b"
proof -
  have d: "unat x div 2 ^ 22 = unat x div 4096 div 1024" for x :: addr
    by (simp add: div_mult2_eq [of _ 4096 1024, simplified])
  have "unat a div 4096 = unat b div 4096 \<longleftrightarrow>
      unat a div 4096 div 1024 = unat b div 4096 div 1024 \<and> unat a div 4096 mod 1024 = unat b div 4096 mod 1024"
    by (metis div_mult_mod_eq)
  then show ?thesis unfolding word_unat_eq_iff unat_PGROUNDDOWN unat_PDX unat_PTX d by simp
qed

lemma pte_cell:
  assumes "p mod PGSIZE = 0" and "unat i < 1024"
  shows "word_al (pte_at p i)" and "PGROUNDDOWN (pte_at p i) = p"
proof -
  have u: "unat (4 * i) = 4 * unat i" using assms(2) by (simp add: unat_word_ariths)
  have "unat p mod 4096 = 0" using assms(1) by (simp only: page_aligned_iff)
  then have "unat p mod 4 = 0" using mod_mod_cancel [of 4 4096 "unat p"] by simp
  then have "p mod 4 = 0" by (simp add: word_unat_eq_iff unat_mod)
  then show "word_al (pte_at p i)" unfolding word_al_def pte_at_def by (rule aligned_add) (simp add: u)
  show "PGROUNDDOWN (pte_at p i) = p"
    unfolding page_offset [OF assms(1), symmetric] using u assms(2) by (simp add: pte_at_def word_less_nat_alt PGSIZE_def)
qed

lemma pte_at_inj:
  assumes "p mod PGSIZE = 0" and "q mod PGSIZE = 0" and "unat i < 1024" and "unat j < 1024"
  shows "pte_at p i = pte_at q j \<longleftrightarrow> p = q \<and> i = j"
proof
  assume e: "pte_at p i = pte_at q j"
  then have "p = q" using pte_cell(2) assms by metis
  moreover have "unat (4 * i) = 4 * unat i" "unat (4 * j) = 4 * unat j" using assms by (simp_all add: unat_word_ariths)
  moreover have "4 * i = 4 * j" using e \<open>p = q\<close> by (simp add: pte_at_def)
  ultimately have "unat i = unat j" by simp
  then show "p = q \<and> i = j" using \<open>p = q\<close> by (simp add: word_unat_eq_iff)
qed simp

lemma PTE_ADDR_OR:
  assumes "p mod PGSIZE = 0" and "f < 4096"
  shows "PTE_ADDR (p OR f) = p"
proof -
  have m: "(0xFFF :: uint) = mask 12" by (simp add: mask_eq_exp_minus_1)
  have "take_bit 12 p = 0" using assms(1) by (simp add: take_bit_eq_mod PGSIZE_def)
  moreover have "take_bit 12 f = f" using assms(2) by (simp add: take_bit_eq_mod word_less_nat_alt word_unat_eq_iff unat_mod)
  ultimately show ?thesis unfolding PTE_ADDR_def m
    by (intro bit_word_eqI) (auto simp: bit_simps bit_eq_iff)
qed

lemma PTE_P_OR [simp]: "(x OR PTE_P) AND PTE_P = PTE_P" "PTE_P \<noteq> 0"
  by (simp_all add: PTE_P_def bit.conj_disj_distrib2)

section \<open>The translation\<close>

definition pde :: "memory \<Rightarrow> addr \<Rightarrow> uint \<Rightarrow> uint" where
  "pde m d i = ld32 m (pte_at d i)"

definition ptab :: "memory \<Rightarrow> addr \<Rightarrow> uint \<Rightarrow> addr" where
  "ptab m d i = p2v (PTE_ADDR (pde m d i))"

definition pt_lookup :: "memory \<Rightarrow> addr \<Rightarrow> addr \<Rightarrow> uint option" where
  "pt_lookup m d va =
     (if pde m d (PDX va) AND PTE_P = 0 then None
      else let e = ld32 m (pte_at (ptab m d (PDX va)) (PTX va)) in if e AND PTE_P = 0 then None else Some e)"

text \<open>The directory and its tables are pages of their own, and none of them is free.\<close>

definition has_tab :: "memory \<Rightarrow> addr \<Rightarrow> uint \<Rightarrow> bool" where
  "has_tab m d i \<longleftrightarrow> unat i < 1024 \<and> pde m d i AND PTE_P \<noteq> 0"

definition pt_ok :: "addr \<Rightarrow> addr list \<Rightarrow> 'e kmem_scheme \<Rightarrow> bool" where
  "pt_ok d ps s \<longleftrightarrow> kmem_ready s ps \<and> kpage s d \<and> d \<notin> set ps \<and>
     (\<forall>i. has_tab (mem s) d i \<longrightarrow> kpage s (ptab (mem s) d i) \<and> ptab (mem s) d i \<noteq> d \<and> ptab (mem s) d i \<notin> set ps) \<and>
     (\<forall>i j. has_tab (mem s) d i \<longrightarrow> has_tab (mem s) d j \<longrightarrow> ptab (mem s) d i = ptab (mem s) d j \<longrightarrow> i = j)"

lemma pt_okD:
  assumes "pt_ok d ps s"
  shows "kmem_ready s ps" and "kpage s d" and "d \<notin> set ps"
    and "\<And>i. has_tab (mem s) d i \<Longrightarrow> kpage s (ptab (mem s) d i)"
    and "\<And>i. has_tab (mem s) d i \<Longrightarrow> ptab (mem s) d i \<noteq> d"
    and "\<And>i. has_tab (mem s) d i \<Longrightarrow> ptab (mem s) d i \<notin> set ps"
    and "\<And>i j. has_tab (mem s) d i \<Longrightarrow> has_tab (mem s) d j \<Longrightarrow> ptab (mem s) d i = ptab (mem s) d j \<Longrightarrow> i = j"
    and "\<And>p. p \<in> set ps \<Longrightarrow> kpage s p" and "distinct ps"
  using assms unfolding pt_ok_def kmem_ready_def kmem_wf_def by blast+

lemma kpage_mod: "kpage s p \<Longrightarrow> p mod PGSIZE = 0"
  unfolding kpage_def by blast

text \<open>Directory entries are decided by the words of the directory page.\<close>

lemma has_tab_cong:
  assumes "\<And>i. unat i < 1024 \<Longrightarrow> pde m' d i = pde m d i"
  shows "has_tab m' d i = has_tab m d i" and "unat i < 1024 \<Longrightarrow> ptab m' d i = ptab m d i"
  using assms by (auto simp: has_tab_def ptab_def)

section \<open>Writing a page table entry\<close>

lemma store_pte:
  fixes e :: uint and v :: addr
  assumes ok: "pt_ok d ps s" and h: "has_tab (mem s) d (PDX va)"
  defines "m \<equiv> st32 (pte_at (ptab (mem s) d (PDX va)) (PTX va)) e (mem s)"
  shows "pt_ok d ps (s\<lparr>mem := m\<rparr>)"
    and "pt_lookup m d v = (if PGROUNDDOWN v = PGROUNDDOWN va then (if e AND PTE_P = 0 then None else Some e) else pt_lookup (mem s) d v)"
    and "\<And>i. has_tab m d i = has_tab (mem s) d i"
proof -
  note D = pt_okD [OF ok]
  let ?t = "ptab (mem s) d (PDX va)"
  have kt: "kpage s ?t" by (rule D(4) [OF h])
  note mt = kpage_mod [OF kt] and md = kpage_mod [OF D(2)]
  have ct: "word_al (pte_at ?t (PTX va))" by (rule pte_cell(1) [OF mt index_bounds(2)])
  have pd: "pde m d i = pde (mem s) d i" if "unat i < 1024" for i
  proof -
    have "pte_at d i \<noteq> pte_at ?t (PTX va)" using pte_at_inj [OF md mt that index_bounds(2)] D(5) [OF h] by metis
    then show ?thesis using pte_cell(1) [OF md that] ct by (simp add: pde_def m_def ld32_st32)
  qed
  have hc: "has_tab m d i = has_tab (mem s) d i" "unat i < 1024 \<Longrightarrow> ptab m d i = ptab (mem s) d i" for i
    using has_tab_cong pd by metis+
  show "has_tab m d i = has_tab (mem s) d i" for i by (rule hc(1))
  have "kmem_ready (s\<lparr>mem := m\<rparr>) ps"
  proof (rule kmem_ready_mem [OF D(1)])
    fix p assume p: "p \<in> set ps"
    note c = kpage_cells [OF D(8) [OF p]]
    have "p \<noteq> pte_at ?t (PTX va)" using pte_cell(2) [OF mt index_bounds(2)] c(3) D(6) [OF h] p by metis
    then show "ld32 m p = ld32 (mem s) p" using c(1) ct by (simp add: m_def ld32_st32)
  qed
  moreover have "ptab m d i = ptab (mem s) d i" if "has_tab (mem s) d i" for i using hc(2) that by (simp add: has_tab_def)
  ultimately show "pt_ok d ps (s\<lparr>mem := m\<rparr>)" using ok hc(1) unfolding pt_ok_def by (simp add: kpage_def)
  show "pt_lookup m d v = (if PGROUNDDOWN v = PGROUNDDOWN va then (if e AND PTE_P = 0 then None else Some e) else pt_lookup (mem s) d v)"
  proof (cases "has_tab (mem s) d (PDX v)")
    case False
    then have "PDX v \<noteq> PDX va" using h by auto
    moreover have "pde m d (PDX v) AND PTE_P = 0" "pde (mem s) d (PDX v) AND PTE_P = 0"
      using False pd [OF index_bounds(1)] by (simp_all add: has_tab_def index_bounds)
    ultimately show ?thesis by (simp add: pt_lookup_def same_page)
  next
    case True
    let ?u = "ptab (mem s) d (PDX v)"
    have mu: "?u mod PGSIZE = 0" by (rule kpage_mod [OF D(4) [OF True]])
    have u: "ptab m d (PDX v) = ?u" by (rule hc(2) [OF index_bounds(1)])
    have "pte_at ?u (PTX v) = pte_at ?t (PTX va) \<longleftrightarrow> PGROUNDDOWN v = PGROUNDDOWN va"
      unfolding pte_at_inj [OF mu mt index_bounds(2) index_bounds(2)] same_page using D(7) [OF True h] by auto
    then have "ld32 m (pte_at ?u (PTX v)) = (if PGROUNDDOWN v = PGROUNDDOWN va then e else ld32 (mem s) (pte_at ?u (PTX v)))"
      using pte_cell(1) [OF mu index_bounds(2)] ct by (simp add: m_def ld32_st32)
    moreover have "pde m d (PDX v) AND PTE_P \<noteq> 0" "pde (mem s) d (PDX v) AND PTE_P \<noteq> 0"
      using True pd [OF index_bounds(1)] by (simp_all add: has_tab_def)
    ultimately show ?thesis using u by (simp add: pt_lookup_def Let_def)
  qed
qed

section \<open>A new page table\<close>

lemma ld32_memset_page:
  assumes "p mod PGSIZE = 0" and "word_al a"
  shows "ld32 (memset p 0 PGSIZE m) a = (if PGROUNDDOWN a = p then 0 else ld32 m a)"
proof -
  have a: "a mod 4 = 0" using assms(2) unfolding word_al_def .
  show ?thesis
  proof (cases "PGROUNDDOWN a = p")
    case True
    have "memset p 0 PGSIZE m (a + i) = 0" if "unat i < 4" for i
      using word_in_page [OF a that] True by (simp add: memset_eq page_offset [OF assms(1)])
    from this [of 0] this [of 1] this [of 2] this [of 3] True show ?thesis by (simp add: ld32_def)
  next
    case False
    have "ld32 (memset p 0 PGSIZE m) a = ld32 m a"
      by (rule ld32_outside [OF a assms(1) False]) (simp add: memset_eq)
    with False show ?thesis by simp
  qed
qed

lemma v2p_aligned: "kpage s p \<Longrightarrow> v2p p mod PGSIZE = 0"
proof -
  assume k: "kpage s p"
  then have "unat p = unat (v2p p) + 0x80000000" using unat_kpage [of p] by (simp add: kpage_def)
  moreover have "unat p mod 4096 = 0" using kpage_mod [OF k] by (simp only: page_aligned_iff)
  ultimately have "(unat (v2p p) + 524288 * 4096) mod 4096 = 0" by simp
  then have "unat (v2p p) mod 4096 = 0" unfolding mod_mult_self1 .
  then show ?thesis by (simp only: page_aligned_iff)
qed

definition tab_entry :: "addr \<Rightarrow> uint" where
  "tab_entry p = v2p p OR PTE_P OR PTE_W OR PTE_U"

lemma tab_entry:
  assumes "kpage s p"
  shows "tab_entry p AND PTE_P \<noteq> 0" and "p2v (PTE_ADDR (tab_entry p)) = p"
proof -
  have e: "tab_entry p = v2p p OR 7" by (simp add: tab_entry_def PTE_P_def PTE_W_def PTE_U_def or.assoc)
  show "p2v (PTE_ADDR (tab_entry p)) = p" unfolding e using PTE_ADDR_OR [OF v2p_aligned [OF assms], of 7] by simp
  have "bit (tab_entry p AND PTE_P) 0" by (simp add: e PTE_P_def bit_simps)
  then show "tab_entry p AND PTE_P \<noteq> 0" by (metis bit_0_eq bot_apply bot_bool_def)
qed

lemma new_table:
  assumes ok: "pt_ok d (p # ps) s" and h: "\<not> has_tab (mem s) d (PDX va)"
  defines "t \<equiv> (maybe_settled (s\<lparr>freelist := ld32 (mem s) p\<rparr>))
    \<lparr>mem := st32 (pte_at d (PDX va)) (tab_entry p) (memset p 0 PGSIZE (mem s))\<rparr>"
  shows "walkpgdir d va True s = Ok (pte_at p (PTX va)) t" and "pt_ok d ps t" and "has_tab (mem t) d (PDX va)"
    and "ptab (mem t) d (PDX va) = p" and "\<And>v. pt_lookup (mem t) d v = pt_lookup (mem s) d v"
proof -
  note D = pt_okD [OF ok]
  have kp: "kpage s p" using D(8) by simp
  note mp = kpage_mod [OF kp] and md = kpage_mod [OF D(2)]
  have pd: "p \<noteq> d" using D(3) by auto
  note b = index_bounds(1) [of va]
  note al = kalloc_Cons [OF D(1)]
  have "pde (mem s) d (PDX va) AND PTE_P = 0" using h b by (simp add: has_tab_def)
  then show "walkpgdir d va True s = Ok (pte_at p (PTX va)) t"
    using al(1) kpage_cells(5) [OF kp] by (simp add: walkpgdir_def pde_def seq_apply t_def tab_entry_def)
  have mem: "ld32 (mem t) a = (if a = pte_at d (PDX va) then tab_entry p else if PGROUNDDOWN a = p then 0 else ld32 (mem s) a)"
    if "word_al a" for a
    using that pte_cell(1) [OF md b] by (simp add: t_def ld32_st32 ld32_memset_page [OF mp])
  have pdt: "pde (mem t) d i = (if i = PDX va then tab_entry p else pde (mem s) d i)" if i: "unat i < 1024" for i
    using mem [OF pte_cell(1) [OF md i]] pte_at_inj [OF md md i b] pte_cell(2) [OF md i] pd by (simp add: pde_def)
  have ht: "has_tab (mem t) d i \<longleftrightarrow> i = PDX va \<or> has_tab (mem s) d i" for i
    using pdt [of i] tab_entry(1) [OF kp] b by (cases "i = PDX va") (auto simp: has_tab_def)
  show "has_tab (mem t) d (PDX va)" by (simp add: ht)
  have pt: "ptab (mem t) d i = (if i = PDX va then p else ptab (mem s) d i)" if "unat i < 1024" for i
    using pdt [OF that] tab_entry(2) [OF kp] by (simp add: ptab_def)
  show "ptab (mem t) d (PDX va) = p" by (simp add: pt b)
  have ne: "i \<noteq> PDX va" "ptab (mem t) d i = ptab (mem s) d i" "ptab (mem s) d i \<noteq> p" if "has_tab (mem s) d i" for i
    using that h D(6) [OF that] pt [of i] by (auto simp: has_tab_def)
  have rdy: "kmem_ready t ps" unfolding t_def
  proof (rule kmem_ready_mem [OF al(2)])
    fix q assume q: "q \<in> set ps"
    then have kq: "kpage s q" using D(8) by simp
    note c = kpage_cells [OF kq]
    have "q \<noteq> p" "q \<noteq> d" using D(3,9) q by auto
    moreover from this have "q \<noteq> pte_at d (PDX va)" using c(3) pte_cell(2) [OF md b] by metis
    ultimately have "ld32 (mem t) q = ld32 (mem s) q" using mem [OF c(1)] c(3) by simp
    then show "ld32 (st32 (pte_at d (PDX va)) (tab_entry p) (memset p 0 PGSIZE (mem s))) q =
        ld32 (mem (maybe_settled (s\<lparr>freelist := ld32 (mem s) p\<rparr>))) q" by (simp add: t_def)
  qed
  have kt: "kpage t = kpage s" by (simp add: t_def kpage_def fun_eq_iff)
  have "kpage s (ptab (mem t) d i) \<and> ptab (mem t) d i \<noteq> d \<and> ptab (mem t) d i \<notin> set ps" if "has_tab (mem t) d i" for i
  proof (cases "has_tab (mem s) d i")
    case True
    then show ?thesis using ne [OF True] D(4,5,6) [OF True] by simp
  next
    case False
    then have "i = PDX va" using that ht by simp
    then show ?thesis using pt [OF b] kp pd D(9) by simp
  qed
  moreover have "i = j" if "has_tab (mem t) d i" "has_tab (mem t) d j" "ptab (mem t) d i = ptab (mem t) d j" for i j
    using that ht [of i] ht [of j] ne [of i] ne [of j] D(7) [of i j] pt [OF b] by metis
  ultimately show "pt_ok d ps t" using rdy D(2,3) unfolding pt_ok_def kt by simp
  show "pt_lookup (mem t) d v = pt_lookup (mem s) d v" for v
  proof (cases "has_tab (mem s) d (PDX v)")
    case True
    let ?u = "ptab (mem s) d (PDX v)"
    have ku: "kpage s ?u" by (rule D(4) [OF True])
    note cu = pte_cell [OF kpage_mod [OF ku] index_bounds(2) [of v]]
    have "pte_at ?u (PTX v) \<noteq> pte_at d (PDX va)" using cu(2) pte_cell(2) [OF md b] D(5) [OF True] by metis
    then have "ld32 (mem t) (pte_at ?u (PTX v)) = ld32 (mem s) (pte_at ?u (PTX v))" using mem [OF cu(1)] cu(2) ne(3) [OF True] by simp
    then show ?thesis using ne [OF True] pdt [OF index_bounds(1) [of v]] by (simp add: pt_lookup_def)
  next
    case False
    then have n: "pde (mem s) d (PDX v) AND PTE_P = 0" by (simp add: has_tab_def index_bounds)
    have "ld32 (mem t) (pte_at p (PTX v)) = 0"
      using mem [OF pte_cell(1) [OF mp index_bounds(2)]] pte_cell(2) [OF mp index_bounds(2)] pd pte_cell(2) [OF md b] by metis
    then show ?thesis using n pdt [OF index_bounds(1) [of v]] pt [OF index_bounds(1) [of v]] by (simp add: pt_lookup_def Let_def)
  qed
qed

lemma walk_present:
  "has_tab (mem s) d (PDX va) \<Longrightarrow> walkpgdir d va alloc s = Ok (pte_at (ptab (mem s) d (PDX va)) (PTX va)) s"
  by (simp add: walkpgdir_def has_tab_def pde_def ptab_def)

lemma walk_absent:
  "\<not> has_tab (mem s) d (PDX va) \<Longrightarrow> walkpgdir d va False s = Ok 0 s"
  by (simp add: walkpgdir_def has_tab_def pde_def index_bounds)

section \<open>Mapping a range\<close>

text \<open>\<open>walkpgdir\<close> with allocation, with a page left: the entry's address, and a directory that still means the same.\<close>

lemma walk_alloc:
  assumes "pt_ok d ps s" and "ps \<noteq> []"
  shows "\<exists>t k. walkpgdir d va True s = Ok (pte_at (ptab (mem t) d (PDX va)) (PTX va)) t \<and> k \<le> 1 \<and> pt_ok d (drop k ps) t
    \<and> has_tab (mem t) d (PDX va) \<and> (\<forall>v. pt_lookup (mem t) d v = pt_lookup (mem s) d v)"
proof (cases "has_tab (mem s) d (PDX va)")
  case True
  then show ?thesis using walk_present [OF True, of True] assms(1) by (intro exI [of _ s] exI [of _ 0]) simp
next
  case False
  from assms(2) obtain p qs where ps: "ps = p # qs" by (cases ps) auto
  from new_table [OF assms(1) [unfolded ps] False] show ?thesis unfolding ps
    by (intro exI [of _ "(maybe_settled (s\<lparr>freelist := ld32 (mem s) p\<rparr>))
      \<lparr>mem := st32 (pte_at d (PDX va)) (tab_entry p) (memset p 0 PGSIZE (mem s))\<rparr>"] exI [of _ 1]) simp
qed

lemma pte_present:
  assumes "has_tab (mem s) d (PDX va)"
  shows "ld32 (mem s) (pte_at (ptab (mem s) d (PDX va)) (PTX va)) AND PTE_P \<noteq> 0 \<longleftrightarrow> pt_lookup (mem s) d va \<noteq> None"
  using assms by (simp add: pt_lookup_def has_tab_def Let_def)

lemma pte_nonzero:
  assumes "pt_ok d ps s" and "has_tab (mem s) d (PDX va)"
  shows "pte_at (ptab (mem s) d (PDX va)) (PTX va) \<noteq> 0"
proof -
  have k: "kpage s (ptab (mem s) d (PDX va))" by (rule pt_okD(4) [OF assms])
  have "PGROUNDDOWN 0 = 0" by (simp add: PGROUNDDOWN_def)
  then show ?thesis using pte_cell(2) [OF kpage_mod [OF k] index_bounds(2) [of va]] kpage_cells(5) [OF k] by metis
qed

lemma map_step:
  assumes ok: "pt_ok d ps s" and "ps \<noteq> []" and "a mod PGSIZE = 0" and new: "pt_lookup (mem s) d a = None"
  shows "\<exists>t k. k \<le> 1 \<and> pt_ok d (drop k ps) t
    \<and> (\<forall>v. pt_lookup (mem t) d v = (if PGROUNDDOWN v = a then Some (pa OR perm OR PTE_P) else pt_lookup (mem s) d v))
    \<and> (\<forall>n l. mappages_loop (Suc n) d a l pa perm s = (if a = l then Ok 0 t else mappages_loop n d (a + PGSIZE) l (pa + PGSIZE) perm t))"
proof -
  from walk_alloc [OF ok assms(2), of a] obtain u k where u: "walkpgdir d a True s = Ok (pte_at (ptab (mem u) d (PDX a)) (PTX a)) u"
    "k \<le> 1" "pt_ok d (drop k ps) u" "has_tab (mem u) d (PDX a)" "\<And>v. pt_lookup (mem u) d v = pt_lookup (mem s) d v" by blast
  let ?e = "pa OR perm OR PTE_P" let ?p = "pte_at (ptab (mem u) d (PDX a)) (PTX a)" let ?t = "u\<lparr>mem := st32 ?p ?e (mem u)\<rparr>"
  have np: "ld32 (mem u) ?p AND PTE_P = 0" using pte_present [OF u(4)] u(5) new by simp
  have e: "?e AND PTE_P \<noteq> 0" by (simp add: or.assoc [symmetric])
  note st = store_pte [OF u(3,4), of ?e]
  have "mappages_loop (Suc n) d a l pa perm s = (if a = l then Ok 0 ?t else mappages_loop n d (a + PGSIZE) l (pa + PGSIZE) perm ?t)" for n l
    using u(1) pte_nonzero [OF u(3,4)] np by (simp add: seq_apply)
  moreover have "pt_lookup (mem ?t) d v = (if PGROUNDDOWN v = a then Some ?e else pt_lookup (mem s) d v)" for v
    using st(2) [of v] e u(5) page_cells(1) [OF assms(3)] by simp
  ultimately show ?thesis using u(2) st(1) by blast
qed

lemma aligned_between:
  assumes "unat (a :: addr) mod 4096 = 0" and "unat b mod 4096 = 0" and "unat a \<le> unat b" and "unat b < unat a + 4096"
  shows "b = a"
proof -
  from assms(1,2) obtain k l where "unat a = 4096 * k" "unat b = 4096 * l" by (auto simp: mod_eq_0_iff_dvd elim!: dvdE)
  then have "unat b = unat a" using assms(3,4) by simp
  then show ?thesis by (simp add: word_unat_eq_iff)
qed

lemma mappages_loop_maps:
  assumes "pt_ok d ps s" and "a mod PGSIZE = 0" and "unat a + n * 4096 < 2 ^ 32" and "n < length ps"
    and "\<forall>i \<le> n. pt_lookup (mem s) d (a + of_nat i * PGSIZE) = None"
  shows "\<exists>t k. mappages_loop (Suc n) d a (a + of_nat n * PGSIZE) pa perm s = Ok 0 t \<and> pt_ok d (drop k ps) t \<and> k \<le> Suc n
    \<and> (\<forall>v. pt_lookup (mem t) d v =
        (if unat a \<le> unat (PGROUNDDOWN v) \<and> unat (PGROUNDDOWN v) \<le> unat a + n * 4096
         then Some ((pa + (PGROUNDDOWN v - a)) OR perm OR PTE_P) else pt_lookup (mem s) d v))"
  using assms
proof (induction n arbitrary: ps s a pa)
  case 0
  then have "ps \<noteq> []" "pt_lookup (mem s) d a = None" by auto
  from map_step [OF 0(1) this(1) 0(2) this(2), of pa perm] obtain t k where
    "k \<le> 1" "pt_ok d (drop k ps) t" "\<And>v. pt_lookup (mem t) d v = (if PGROUNDDOWN v = a then Some (pa OR perm OR PTE_P) else pt_lookup (mem s) d v)"
    "mappages_loop (Suc 0) d a a pa perm s = Ok 0 t" by metis
  moreover have "unat a \<le> unat g \<and> unat g \<le> unat a \<longleftrightarrow> g = a" for g by (auto simp: word_unat_eq_iff)
  ultimately show ?case by (intro exI [of _ t] exI [of _ k]) auto
next
  case (Suc n)
  let ?a = "a + PGSIZE" and ?l = "a + of_nat (Suc n) * PGSIZE"
  have ua: "unat ?a = unat a + 4096" using Suc.prems(3) by (simp add: PGSIZE_def unat_word_ariths)
  have am: "unat a mod 4096 = 0" using Suc.prems(2) by (simp only: page_aligned_iff)
  have a2: "?a mod PGSIZE = 0" unfolding page_aligned_iff ua mod_add_self2 by (rule am)
  have l: "?l = ?a + of_nat n * PGSIZE" by (simp add: algebra_simps)
  have ui: "unat (of_nat i * PGSIZE) = i * 4096" if "i \<le> Suc n" for i
    using that Suc.prems(3) by (simp add: PGSIZE_def unat_word_ariths unat_of_nat)
  have "a \<noteq> ?l" using ui [of "Suc n"] by (metis add_cancel_right_right le_refl mult_is_0 nat.distinct(1) unat_0 zero_neq_numeral)
  have "ps \<noteq> []" "pt_lookup (mem s) d a = None" using Suc.prems(4,5) by auto
  from map_step [OF Suc.prems(1) this(1) Suc.prems(2) this(2), of pa perm] \<open>a \<noteq> ?l\<close> obtain t k where t:
    "k \<le> 1" "pt_ok d (drop k ps) t" "\<And>v. pt_lookup (mem t) d v = (if PGROUNDDOWN v = a then Some (pa OR perm OR PTE_P) else pt_lookup (mem s) d v)"
    "mappages_loop (Suc (Suc n)) d a ?l pa perm s = mappages_loop (Suc n) d ?a ?l (pa + PGSIZE) perm t" by metis
  have none: "\<forall>i \<le> n. pt_lookup (mem t) d (?a + of_nat i * PGSIZE) = None"
  proof (intro allI impI)
    fix i assume i: "i \<le> n"
    have e: "?a + of_nat i * PGSIZE = a + of_nat (Suc i) * PGSIZE" by (simp add: algebra_simps)
    have "unat (a + of_nat (Suc i) * PGSIZE) = unat a + Suc i * 4096"
      using ui [of "Suc i"] i Suc.prems(3) by (subst unat_word_ariths) simp
    then have "PGROUNDDOWN (a + of_nat (Suc i) * PGSIZE) \<noteq> a" using am by (simp add: word_unat_eq_iff unat_PGROUNDDOWN)
    then show "pt_lookup (mem t) d (?a + of_nat i * PGSIZE) = None" unfolding e using t(3) Suc.prems(5) [rule_format, of "Suc i"] i
      by (simp del: of_nat_Suc)
  qed
  have "unat ?a + n * 4096 < 2 ^ 32" "n < length (drop k ps)" using Suc.prems(3,4) ua t(1) by simp_all
  from Suc.IH [OF t(2) a2 this none, of "pa + PGSIZE"] obtain u j where u:
    "mappages_loop (Suc n) d ?a ?l (pa + PGSIZE) perm t = Ok 0 u" "pt_ok d (drop j (drop k ps)) u" "j \<le> Suc n"
    "\<And>v. pt_lookup (mem u) d v = (if unat ?a \<le> unat (PGROUNDDOWN v) \<and> unat (PGROUNDDOWN v) \<le> unat ?a + n * 4096
         then Some ((pa + PGSIZE + (PGROUNDDOWN v - ?a)) OR perm OR PTE_P) else pt_lookup (mem t) d v)" unfolding l by blast
  have "pt_lookup (mem u) d v = (if unat a \<le> unat (PGROUNDDOWN v) \<and> unat (PGROUNDDOWN v) \<le> unat a + Suc n * 4096
         then Some ((pa + (PGROUNDDOWN v - a)) OR perm OR PTE_P) else pt_lookup (mem s) d v)" for v
  proof -
    let ?g = "PGROUNDDOWN v"
    have g: "unat ?g mod 4096 = 0" by (simp add: unat_PGROUNDDOWN)
    have "?g = a" if "unat a \<le> unat ?g" "unat ?g < unat a + 4096" by (rule aligned_between [OF am g that])
    then have "unat a \<le> unat ?g \<and> unat ?g \<le> unat a + Suc n * 4096 \<longleftrightarrow>
        ?g = a \<or> (unat ?a \<le> unat ?g \<and> unat ?g \<le> unat ?a + n * 4096)"
      using ua by (cases "unat ?g < unat a + 4096") auto
    moreover have "pa + PGSIZE + (?g - ?a) = pa + (?g - a)" by (simp add: algebra_simps)
    ultimately show ?thesis unfolding u(4) t(3) using ua by auto
  qed
  then show ?case using u(1-3) t(1,4) by (intro exI [of _ u] exI [of _ "j + k"]) (simp add: add.commute)
qed

lemma PGROUNDDOWN_mono: "unat a \<le> unat b \<Longrightarrow> unat (PGROUNDDOWN a) \<le> unat (PGROUNDDOWN b)"
  by (simp add: unat_PGROUNDDOWN div_le_mono)

lemma page_steps:
  assumes "unat a mod 4096 = 0" and "unat l mod 4096 = 0" and "unat a \<le> unat (l :: addr)"
  defines "n \<equiv> unat (l - a) div 4096"
  shows "l = a + of_nat n * PGSIZE" and "unat l = unat a + n * 4096"
proof -
  have "unat (l - a) = unat l - unat a" using assms(3) by (simp add: unat_sub_if')
  then have "unat (l - a) mod 4096 = 0" using assms(1,2) by (simp add: mod_diff_eq mod_eq_0_iff_dvd)
  then have n: "unat (l - a) = n * 4096" unfolding n_def using div_mult_mod_eq [of "unat (l - a)" 4096] by simp
  then show "unat l = unat a + n * 4096" using assms(3) by (simp add: unat_sub_if')
  have "l - a = of_nat (unat (l - a))" by simp
  also have "\<dots> = of_nat n * PGSIZE" unfolding n by (simp add: PGSIZE_def)
  finally show "l = a + of_nat n * PGSIZE" by (simp add: algebra_simps)
qed

lemma unat_add_pred: "0 < siz \<Longrightarrow> unat va + unat siz \<le> 2 ^ 32 \<Longrightarrow> unat (va + siz - 1 :: addr) = unat va + unat siz - 1"
proof -
  assume s: "0 < siz" "unat va + unat siz \<le> 2 ^ 32"
  have "unat (siz - 1) = unat siz - 1" using s(1) by (intro unat_minus_one) auto
  moreover have "0 < unat siz" using s(1) by (simp add: word_less_nat_alt)
  ultimately have "unat (va + (siz - 1)) = unat va + (unat siz - 1)" using s(2) by (simp add: unat_word_ariths)
  then show ?thesis using \<open>0 < unat siz\<close> by (simp add: add_diff_eq)
qed

text \<open>
  C12 (mappages). With enough free pages, mapping a range of unmapped virtual pages succeeds: afterwards exactly the pages of the range have a
  translation they did not have before, to consecutive physical pages with the given permission and the present bit, and every other address
  translates as before; the directory stays well formed.  A range that starts in a mapped page panics, and
  without a free page for a missing page table the result is -1 with nothing changed.
\<close>

theorem mappages_spec:
  assumes "pt_ok d ps s" and "0 < siz" and "unat va + unat siz \<le> 2 ^ 32"
  defines "lo \<equiv> PGROUNDDOWN va" and "hi \<equiv> PGROUNDDOWN (va + siz - 1)"
  shows "((\<forall>v. lo \<le> PGROUNDDOWN v \<and> PGROUNDDOWN v \<le> hi \<longrightarrow> pt_lookup (mem s) d v = None) \<and> unat (hi - lo) div 4096 < length ps \<longrightarrow>
      (\<exists>t k. mappages d va siz pa perm s = Ok 0 t \<and> pt_ok d (drop k ps) t \<and>
        (\<forall>v. pt_lookup (mem t) d v =
          (if lo \<le> PGROUNDDOWN v \<and> PGROUNDDOWN v \<le> hi then Some ((pa + (PGROUNDDOWN v - lo)) OR perm OR PTE_P)
           else pt_lookup (mem s) d v)))) \<and>
    (pt_lookup (mem s) d va \<noteq> None \<longrightarrow> mappages d va siz pa perm s = Stop (Panic ''remap'')) \<and>
    (ps = [] \<and> pde (mem s) d (PDX va) AND PTE_P = 0 \<longrightarrow> (\<exists>t. mappages d va siz pa perm s = Ok (- 1) t \<and> mem t = mem s))"
proof (intro conjI impI)
  let ?n = "unat (hi - lo) div 4096"
  have m: "unat lo mod 4096 = 0" "unat hi mod 4096 = 0" by (simp_all add: lo_def hi_def unat_PGROUNDDOWN)
  have "unat va \<le> unat (va + siz - 1)" using unat_add_pred [OF assms(2,3)] assms(2) by (simp add: word_less_nat_alt)
  then have le: "unat lo \<le> unat hi" unfolding lo_def hi_def by (rule PGROUNDDOWN_mono)
  note st = page_steps [OF m le]
  have lm: "lo mod PGSIZE = 0" unfolding page_aligned_iff by (rule m(1))
  have eq: "mappages d va siz pa perm s = mappages_loop (Suc ?n) d lo (lo + of_nat ?n * PGSIZE) pa perm s"
    by (simp add: mappages_def Let_def lo_def hi_def st(1) [unfolded lo_def hi_def, symmetric])
  have pg: "PDX lo = PDX va" "PTX lo = PTX va"
    using same_page [of lo va] page_cells(1) [OF lm] by (simp_all add: lo_def)
  show "\<exists>t k. mappages d va siz pa perm s = Ok 0 t \<and> pt_ok d (drop k ps) t \<and>
      (\<forall>v. pt_lookup (mem t) d v = (if lo \<le> PGROUNDDOWN v \<and> PGROUNDDOWN v \<le> hi
         then Some ((pa + (PGROUNDDOWN v - lo)) OR perm OR PTE_P) else pt_lookup (mem s) d v))"
    if a: "(\<forall>v. lo \<le> PGROUNDDOWN v \<and> PGROUNDDOWN v \<le> hi \<longrightarrow> pt_lookup (mem s) d v = None) \<and> ?n < length ps"
  proof -
    have "\<forall>i \<le> ?n. pt_lookup (mem s) d (lo + of_nat i * PGSIZE) = None"
    proof (intro allI impI)
      fix i assume i: "i \<le> ?n"
      have "unat hi < 2 ^ 32" using unsigned_less [of hi, where 'a = nat] by simp
      then have u: "unat (lo + of_nat i * PGSIZE) = unat lo + i * 4096"
        using i st(2) by (simp add: PGSIZE_def unat_word_ariths unat_of_nat)
      have "unat (lo + of_nat i * PGSIZE) mod 4096 = 0" unfolding u mod_mult_self1 by (rule m(1))
      then have "PGROUNDDOWN (lo + of_nat i * PGSIZE) = lo + of_nat i * PGSIZE"
        by (intro page_cells(1)) (simp only: page_aligned_iff)
      with u show "pt_lookup (mem s) d (lo + of_nat i * PGSIZE) = None" using a i st(2) by (simp add: word_le_nat_alt)
    qed
    moreover have "unat lo + ?n * 4096 < 2 ^ 32" using st(2) unsigned_less [of hi, where 'a = nat] by simp
    ultimately show ?thesis
      using mappages_loop_maps [OF assms(1) lm, of ?n pa perm] a unfolding eq word_le_nat_alt st(2) by blast
  qed
  show "mappages d va siz pa perm s = Stop (Panic ''remap'')" if "pt_lookup (mem s) d va \<noteq> None"
  proof -
    have h: "has_tab (mem s) d (PDX va)" using that index_bounds(1) by (auto simp: pt_lookup_def has_tab_def split: if_splits)
    have w: "walkpgdir d lo True s = Ok (pte_at (ptab (mem s) d (PDX va)) (PTX va)) s"
      using walk_present [of s d lo True] h pg by simp
    show ?thesis unfolding eq using w pte_nonzero [OF assms(1) h] pte_present [OF h] that by simp
  qed
  show "\<exists>t. mappages d va siz pa perm s = Ok (- 1) t \<and> mem t = mem s" if "ps = [] \<and> pde (mem s) d (PDX va) AND PTE_P = 0"
  proof -
    have "walkpgdir d lo True s = Ok 0 (maybe_settled s)"
      using that kalloc_Nil [of s] pt_okD(1) [OF assms(1)] pg by (simp add: walkpgdir_def pde_def)
    then show ?thesis unfolding eq by simp
  qed
qed

lemma ex_pt_ok: "pt_ok 0x80401000 [0x80400000] ex_kmem"
proof -
  have "pde (mem ex_kmem) 0x80401000 i = 0" for i by (simp add: pde_def ex_kmem_def ld32_def)
  then have n: "\<not> has_tab (mem ex_kmem) 0x80401000 i" for i by (simp add: has_tab_def)
  have "kpage ex_kmem 0x80401000" by (simp add: kpage_def ex_kmem_def PGSIZE_def v2p_def layout_defs)
  then show ?thesis using n ex_kmem_ready unfolding pt_ok_def by simp
qed

theorem mappages_spec_witness:
  "\<exists>t. mappages 0x80401000 0x5000 0x1000 0x3000 PTE_U ex_kmem = Ok 0 t \<and> pt_lookup (mem t) 0x80401000 0x5678 = Some 0x3005"
proof -
  have n: "pt_lookup (mem ex_kmem) 0x80401000 v = None" for v
    by (simp add: pt_lookup_def pde_def ex_kmem_def ld32_def)
  have "PGROUNDDOWN 0x5678 = 0x5000" "PGROUNDDOWN 0x5000 = 0x5000" "PGROUNDDOWN 0x5FFF = 0x5000"
    by (simp_all add: PGROUNDDOWN_def PGSIZE_def)
  then show ?thesis using mappages_spec [OF ex_pt_ok, of "0x1000" "0x5000" "0x3000" PTE_U] n
    by (auto simp: PTE_P_def PTE_U_def)
qed


text \<open>
  \<open>deallocuvm\<close> steps over an address without a page table by 4 MB from that address, not to the next multiple of 4 MB: mapped pages at
  the start of the following table are passed over when the address is not such a multiple.
\<close>

lemma deallocuvm_skips:
  assumes "\<not> has_tab (mem s) d (PDX a)" and "a < oldsz" and "unat a + 0x400000 < 2 ^ 32"
  shows "deallocuvm_loop d oldsz a s = deallocuvm_loop d oldsz (a + 0x400000) s"
proof -
  have "a + 1023 * PGSIZE + PGSIZE = a + 0x400000" by (simp add: PGSIZE_def)
  moreover have "a < a + 0x400000" using assms(3) by (simp add: word_less_nat_alt unat_word_ariths)
  ultimately show ?thesis using walk_absent [OF assms(1)] assms(2)
    by (subst deallocuvm_loop.simps) (simp add: Let_def NPTENTRIES_def add.commute)
qed

section \<open>User memory\<close>

text \<open>The kernel address of the frame behind a user page, and a byte of user memory.\<close>

definition uframe :: "memory \<Rightarrow> addr \<Rightarrow> addr \<Rightarrow> addr option" where
  "uframe m d v =
     (case pt_lookup m d v of None \<Rightarrow> None | Some e \<Rightarrow> if e AND PTE_U = 0 then None else Some (p2v (PTE_ADDR e)))"

definition ubyte :: "memory \<Rightarrow> addr \<Rightarrow> addr \<Rightarrow> uchar option" where
  "ubyte m d v = map_option (\<lambda>f. m (f + (v - PGROUNDDOWN v))) (uframe m d v)"

text \<open>The frames of user pages are pages of their own, apart from the directory, its tables and each other.\<close>

definition uspace :: "addr \<Rightarrow> addr list \<Rightarrow> 'e kmem_scheme \<Rightarrow> bool" where
  "uspace d ps s \<longleftrightarrow> pt_ok d ps s \<and>
     (\<forall>v f. uframe (mem s) d v = Some f \<longrightarrow>
        kpage s f \<and> f \<noteq> d \<and> f \<notin> set ps \<and> (\<forall>i. has_tab (mem s) d i \<longrightarrow> ptab (mem s) d i \<noteq> f)) \<and>
     (\<forall>v w f. uframe (mem s) d v = Some f \<longrightarrow> uframe (mem s) d w = Some f \<longrightarrow> PGROUNDDOWN v = PGROUNDDOWN w)"

lemma uspaceD:
  assumes "uspace d ps s"
  shows "pt_ok d ps s"
    and "\<And>v f. uframe (mem s) d v = Some f \<Longrightarrow> kpage s f \<and> f \<noteq> d \<and> f \<notin> set ps \<and> (\<forall>i. has_tab (mem s) d i \<longrightarrow> ptab (mem s) d i \<noteq> f)"
    and "\<And>v w f. uframe (mem s) d v = Some f \<Longrightarrow> uframe (mem s) d w = Some f \<Longrightarrow> PGROUNDDOWN v = PGROUNDDOWN w"
  using assms unfolding uspace_def by blast+

lemma pt_lookup_page: "PGROUNDDOWN v = PGROUNDDOWN w \<Longrightarrow> pt_lookup m d v = pt_lookup m d w"
  by (simp add: pt_lookup_def same_page)

lemma PGROUNDDOWN_idem [simp]: "PGROUNDDOWN (PGROUNDDOWN v) = PGROUNDDOWN v"
  by (rule page_cells(1) [OF PGROUNDDOWN_aligned])

lemma uva2ka_eq:
  assumes "has_tab (mem s) d (PDX v)" and "pt_ok d ps s"
  shows "uva2ka d v s = Ok (case uframe (mem s) d v of None \<Rightarrow> 0 | Some f \<Rightarrow> f) s"
  using walk_present [OF assms(1), of False] pte_nonzero [OF assms(2,1)] assms(1)
  by (simp add: uva2ka_def uframe_def pt_lookup_def has_tab_def Let_def)

text \<open>Writing inside the frame of a user page changes no translation.\<close>

lemma write_frame:
  assumes U: "uspace d ps s" and f: "uframe (mem s) d v = Some f" and out: "\<And>x. PGROUNDDOWN x \<noteq> f \<Longrightarrow> m x = mem s x"
  shows "uspace d ps (s\<lparr>mem := m\<rparr>)" and "\<And>w. uframe m d w = uframe (mem s) d w" and "\<And>i. has_tab m d i = has_tab (mem s) d i"
proof -
  note D = pt_okD [OF uspaceD(1) [OF U]]
  have F: "kpage s f" "f \<noteq> d" "f \<notin> set ps" "\<And>i. has_tab (mem s) d i \<Longrightarrow> ptab (mem s) d i \<noteq> f" using uspaceD(2) [OF U f] by blast+
  have ld: "ld32 m a = ld32 (mem s) a" if "word_al a" "PGROUNDDOWN a \<noteq> f" for a
  proof (rule ld32_outside [OF that(1) [unfolded word_al_def] kpage_mod [OF F(1)] that(2)])
    fix x assume "\<not> x - f < PGSIZE"
    then show "m x = mem s x" unfolding page_offset [OF kpage_mod [OF F(1)]] by (rule out)
  qed
  have pd: "pde m d i = pde (mem s) d i" if "unat i < 1024" for i
    unfolding pde_def using pte_cell [OF kpage_mod [OF D(2)] that] F(2) by (intro ld) auto
  have hc: "has_tab m d i = has_tab (mem s) d i" "unat i < 1024 \<Longrightarrow> ptab m d i = ptab (mem s) d i" for i
    using has_tab_cong pd by metis+
  then show "\<And>i. has_tab m d i = has_tab (mem s) d i" by blast
  have lk: "pt_lookup m d w = pt_lookup (mem s) d w" for w
  proof (cases "has_tab (mem s) d (PDX w)")
    case True
    note c = pte_cell [OF kpage_mod [OF D(4) [OF True]] index_bounds(2) [of w]]
    have "ld32 m (pte_at (ptab (mem s) d (PDX w)) (PTX w)) = ld32 (mem s) (pte_at (ptab (mem s) d (PDX w)) (PTX w))"
      using c F(4) [OF True] by (intro ld) auto
    then show ?thesis using pd [OF index_bounds(1)] hc(2) [OF index_bounds(1)] by (simp add: pt_lookup_def)
  next
    case False
    then show ?thesis using pd [OF index_bounds(1)] by (simp add: pt_lookup_def has_tab_def index_bounds)
  qed
  then show uf: "uframe m d w = uframe (mem s) d w" for w by (simp add: uframe_def)
  have "kmem_ready (s\<lparr>mem := m\<rparr>) ps"
  proof (rule kmem_ready_mem [OF D(1)])
    fix p assume p: "p \<in> set ps"
    note c = kpage_cells [OF D(8) [OF p]]
    show "ld32 m p = ld32 (mem s) p" using c F(3) p by (intro ld) auto
  qed
  moreover have "ptab m d i = ptab (mem s) d i" if "has_tab (mem s) d i" for i using hc(2) that by (simp add: has_tab_def)
  ultimately have p: "pt_ok d ps (s\<lparr>mem := m\<rparr>)"
    using uspaceD(1) [OF U] hc(1) unfolding pt_ok_def by (simp add: kpage_def)
  have e: "mem (s\<lparr>mem := m\<rparr>) = m" "kpage (s\<lparr>mem := m\<rparr>) = kpage s" by (simp_all add: kpage_def fun_eq_iff)
  have q: "ptab m d i = ptab (mem s) d i" if "has_tab (mem s) d i" for i using hc(2) that by (simp add: has_tab_def)
  show "uspace d ps (s\<lparr>mem := m\<rparr>)"
    unfolding uspace_def e uf hc(1) using p uspaceD(2,3) [OF U] q by metis
qed

lemma page_of_offset:
  assumes "f mod PGSIZE = 0" and "unat o1 < 4096"
  shows "PGROUNDDOWN (f + o1) = f"
  using page_offset [OF assms(1), of "f + o1"] assms(2) by (simp add: word_less_nat_alt PGSIZE_def)

text \<open>Whether an address lies in the part of a page that one step of \<open>copyout\<close> fills.\<close>

lemma in_chunk:
  assumes "PGROUNDDOWN w = PGROUNDDOWN va" and "n \<le> 4096 - unat va mod 4096"
  shows "unat (w - va) < n \<longleftrightarrow> unat va \<le> unat w \<and> unat w < unat va + n" and "unat va \<le> unat w \<Longrightarrow> unat (w - va) = unat w - unat va"
proof -
  have "unat w div 4096 = unat va div 4096" using assms(1) by (simp add: word_unat_eq_iff unat_PGROUNDDOWN)
  moreover note div_mult_mod_eq [of "unat w" 4096] div_mult_mod_eq [of "unat va" 4096]
  moreover have "unat va mod 4096 < 4096" by simp
  ultimately have d: "unat va < unat w + 4096" by linarith
  have va: "unat va < 2 ^ 32" using unsigned_less [of va, where 'a = nat] by simp
  show "unat va \<le> unat w \<Longrightarrow> unat (w - va) = unat w - unat va" by (simp add: unat_sub_if')
  show "unat (w - va) < n \<longleftrightarrow> unat va \<le> unat w \<and> unat w < unat va + n"
  proof (cases "unat va \<le> unat w")
    case True
    then show ?thesis by (simp add: unat_sub_if') linarith
  next
    case False
    then have "unat (w - va) = 2 ^ 32 + unat w - unat va" by (simp add: unat_sub_if')
    moreover have "n \<le> 4096" using assms(2) by simp
    ultimately show ?thesis using False d va by simp
  qed
qed

lemma copy_chunk:
  assumes U: "uspace d ps s" and f: "uframe (mem s) d va = Some f" and n: "n = min (4096 - unat (va - PGROUNDDOWN va)) (length bs)"
  defines "m \<equiv> write_bytes (f + (va - PGROUNDDOWN va)) (take n bs) (mem s)"
  shows "uspace d ps (s\<lparr>mem := m\<rparr>)" and "\<And>w. uframe m d w = uframe (mem s) d w"
    and "\<And>w. ubyte m d w = (if PGROUNDDOWN w = PGROUNDDOWN va \<and> unat va \<le> unat w \<and> unat w < unat va + n
      then Some (bs ! (unat w - unat va)) else ubyte (mem s) d w)"
proof -
  let ?o = "va - PGROUNDDOWN va"
  have uo: "unat ?o = unat va mod 4096" by (rule unat_page_offset)
  have kf: "kpage s f" using uspaceD(2) [OF U f] by blast
  note mf = kpage_mod [OF kf]
  have len: "length (take n bs) = n" "n \<le> 4096 - unat va mod 4096" using n uo by auto
  then have le: "length (take n bs) \<le> 2 ^ 32" by simp
  have m: "m x = (if unat (x - (f + ?o)) < n then bs ! unat (x - (f + ?o)) else mem s x)" for x
    by (simp only: m_def write_bytes_eq [OF le] len(1)) simp
  have out: "m x = mem s x" if "PGROUNDDOWN x \<noteq> f" for x
  proof -
    have "\<not> unat (x - (f + ?o)) < n"
    proof
      assume "unat (x - (f + ?o)) < n"
      moreover define j where "j = x - (f + ?o)"
      ultimately have "unat ?o + unat j < 4096" using len(2) uo by simp
      then have "unat (?o + j) < 4096" by (simp only: unat_word_ariths) simp
      from page_of_offset [OF mf this] that show False by (simp add: j_def algebra_simps)
    qed
    then show ?thesis by (simp add: m)
  qed
  note wf = write_frame [OF U f out]
  show "uspace d ps (s\<lparr>mem := m\<rparr>)" "\<And>w. uframe m d w = uframe (mem s) d w" using wf(1,2) by blast+
  show "ubyte m d w = (if PGROUNDDOWN w = PGROUNDDOWN va \<and> unat va \<le> unat w \<and> unat w < unat va + n
      then Some (bs ! (unat w - unat va)) else ubyte (mem s) d w)" for w
  proof (cases "PGROUNDDOWN w = PGROUNDDOWN va")
    case True
    then have fw: "uframe (mem s) d w = Some f" using f pt_lookup_page [OF True] by (simp add: uframe_def)
    have "f + (w - PGROUNDDOWN va) - (f + ?o) = w - va" by (simp add: algebra_simps)
    then show ?thesis using True fw in_chunk [OF True len(2)] by (simp add: ubyte_def wf(2) m)
  next
    case False
    have "m (g + (w - PGROUNDDOWN w)) = mem s (g + (w - PGROUNDDOWN w))" if g: "uframe (mem s) d w = Some g" for g
    proof (rule out)
      have "kpage s g" using uspaceD(2) [OF U g] by blast
      moreover have "unat (w - PGROUNDDOWN w) < 4096" by (simp add: unat_page_offset)
      ultimately have "PGROUNDDOWN (g + (w - PGROUNDDOWN w)) = g" by (intro page_of_offset kpage_mod)
      moreover have "g \<noteq> f" using uspaceD(3) [OF U g] f False by blast
      ultimately show "PGROUNDDOWN (g + (w - PGROUNDDOWN w)) \<noteq> f" by simp
    qed
    then show ?thesis using False by (cases "uframe (mem s) d w") (simp_all add: ubyte_def wf(2))
  qed
qed

lemma copyout_copies:
  assumes "uspace d ps s" and "unat va + length bs \<le> 2 ^ 32"
    and "\<And>w. unat va \<le> unat w \<Longrightarrow> unat w < unat va + length bs \<Longrightarrow> uframe (mem s) d w \<noteq> None"
  shows "\<exists>t. copyout d va bs s = Ok 0 t \<and> uspace d ps t \<and> (\<forall>w. uframe (mem t) d w = uframe (mem s) d w) \<and>
    (\<forall>w. ubyte (mem t) d w = (if unat va \<le> unat w \<and> unat w < unat va + length bs then Some (bs ! (unat w - unat va)) else ubyte (mem s) d w))"
  using assms
proof (induction "length bs" arbitrary: bs va s rule: less_induct)
  case less
  show ?case
  proof (cases "bs = []")
    case True
    then show ?thesis using less.prems(1) by (auto simp: copyout.simps [of d va])
  next
    case False
    let ?v0 = "PGROUNDDOWN va" let ?o = "va - ?v0" let ?n = "min (4096 - unat ?o) (length bs)"
    let ?rest = "drop ?n bs" and ?va = "?v0 + PGSIZE"
    from less.prems(3) [of va] False obtain f where f: "uframe (mem s) d va = Some f" by auto
    then have f0: "uframe (mem s) d ?v0 = Some f" using pt_lookup_page [of ?v0 va] by (simp add: uframe_def)
    have h: "has_tab (mem s) d (PDX ?v0)"
      using f0 index_bounds(1) by (auto simp: uframe_def pt_lookup_def has_tab_def split: if_splits)
    have kf: "kpage s f" using uspaceD(2) [OF less.prems(1) f] by blast
    let ?m = "write_bytes (f + ?o) (take ?n bs) (mem s)"
    note ch = copy_chunk [OF less.prems(1) f, of ?n bs, OF refl]
    have uo: "unat ?o = unat va mod 4096" by (rule unat_page_offset)
    have u0: "unat ?v0 + unat va mod 4096 = unat va" by (simp add: unat_PGROUNDDOWN)
    have step: "copyout d va bs s = copyout d ?va ?rest (s\<lparr>mem := ?m\<rparr>)"
      using uva2ka_eq [OF h uspaceD(1) [OF less.prems(1)]] f0 kpage_cells(5) [OF kf] False
      by (subst copyout.simps) (simp add: Let_def)
    have un: "unat ?va = unat va + ?n" if "?rest \<noteq> []"
    proof -
      have "?n = 4096 - unat va mod 4096" "?n < length bs" using that uo by auto
      then show ?thesis using u0 less.prems(2) by (simp add: PGSIZE_def unat_word_ariths)
    qed
    have "length ?rest < length bs" using False uo by (cases bs) auto
    moreover have "unat ?va + length ?rest \<le> 2 ^ 32"
      using un less.prems(2) unsigned_less [of ?va, where 'a = nat] by (cases "?rest = []") auto
    moreover have "uframe (mem (s\<lparr>mem := ?m\<rparr>)) d w \<noteq> None" if "unat ?va \<le> unat w" "unat w < unat ?va + length ?rest" for w
      using that un less.prems(3) [of w] ch(2) [of w] by (cases "?rest = []") auto
    ultimately obtain t where t: "copyout d ?va ?rest (s\<lparr>mem := ?m\<rparr>) = Ok 0 t" "uspace d ps t" "\<And>w. uframe (mem t) d w = uframe ?m d w"
      "\<And>w. ubyte (mem t) d w = (if unat ?va \<le> unat w \<and> unat w < unat ?va + length ?rest then Some (?rest ! (unat w - unat ?va)) else ubyte ?m d w)"
      using less.hyps [of ?rest "s\<lparr>mem := ?m\<rparr>" ?va] ch(1) by auto
    have "ubyte (mem t) d w = (if unat va \<le> unat w \<and> unat w < unat va + length bs then Some (bs ! (unat w - unat va)) else ubyte (mem s) d w)" for w
    proof -
      have pg: "PGROUNDDOWN w = ?v0" if "unat va \<le> unat w" "unat w < unat va + ?n"
      proof -
        have "unat w < unat ?v0 + 4096" using that(2) u0 uo by auto
        then have "unat w div 4096 = unat va div 4096"
          using that(1) u0 by (intro div_nat_eqI) (simp_all add: unat_PGROUNDDOWN)
        then show ?thesis by (simp add: word_unat_eq_iff unat_PGROUNDDOWN)
      qed
      show ?thesis
      proof (cases "?rest = []")
        case True
        then have "?n = length bs" by auto
        then show ?thesis using t(4) [of w] ch(3) [of w] pg True by auto
      next
        case False
        note va = un [OF False]
        have nl: "?n < length bs" using False by auto
        show ?thesis
        proof (cases "unat ?va \<le> unat w")
          case True
          then have "bs ! (unat w - unat va) = ?rest ! (unat w - unat ?va)" if "unat w < unat va + length bs" using va nl that by simp
          then show ?thesis using t(4) [of w] ch(3) [of w] True va nl by auto
        next
          case False
          then have lt: "unat w < unat va + ?n" and e: "ubyte (mem t) d w = ubyte ?m d w" using va t(4) [of w] by simp_all
          show ?thesis
          proof (cases "unat va \<le> unat w")
            case True
            have "unat w < unat va + length bs" using lt by simp
            then show ?thesis unfolding e ch(3) using True lt pg [OF True lt] by simp
          next
            case False
            then show ?thesis unfolding e ch(3) by simp
          qed
        qed
      qed
    qed
    then show ?thesis using step t(1-3) ch(2) by auto
  qed
qed

text \<open>
  C13 (copyout). Into a range of user memory whose pages are all mapped for the user, \<open>copyout\<close> succeeds: afterwards user memory holds
  exactly these bytes in the range and is unchanged everywhere else, and no translation changes.  When the first page has a page
  table but no user mapping the result is -1 and nothing is written; when it has no page table, the null pointer that \<open>walkpgdir\<close> returns is
  dereferenced.
\<close>

theorem copyout_spec:
  assumes "uspace d ps s" and "unat va + length bs \<le> 2 ^ 32"
  shows "((\<forall>w. unat va \<le> unat w \<and> unat w < unat va + length bs \<longrightarrow> uframe (mem s) d w \<noteq> None) \<longrightarrow>
      (\<exists>t. copyout d va bs s = Ok 0 t \<and> uspace d ps t \<and> (\<forall>w. uframe (mem t) d w = uframe (mem s) d w) \<and>
        (\<forall>w. ubyte (mem t) d w =
          (if unat va \<le> unat w \<and> unat w < unat va + length bs then Some (bs ! (unat w - unat va)) else ubyte (mem s) d w)))) \<and>
    (bs \<noteq> [] \<and> uframe (mem s) d va = None \<longrightarrow>
      copyout d va bs s = (if pde (mem s) d (PDX va) AND PTE_P = 0 then Stop (Fault ''uva2ka'') else Ok (- 1) s))"
proof (intro conjI impI)
  show "\<exists>t. copyout d va bs s = Ok 0 t \<and> uspace d ps t \<and> (\<forall>w. uframe (mem t) d w = uframe (mem s) d w) \<and>
      (\<forall>w. ubyte (mem t) d w = (if unat va \<le> unat w \<and> unat w < unat va + length bs then Some (bs ! (unat w - unat va)) else ubyte (mem s) d w))"
    if "\<forall>w. unat va \<le> unat w \<and> unat w < unat va + length bs \<longrightarrow> uframe (mem s) d w \<noteq> None"
    using that by (intro copyout_copies [OF assms]) simp
  assume b: "bs \<noteq> [] \<and> uframe (mem s) d va = None"
  let ?v0 = "PGROUNDDOWN va"
  have v0: "PDX ?v0 = PDX va" "uframe (mem s) d ?v0 = uframe (mem s) d va"
    using same_page [of ?v0 va] pt_lookup_page [of ?v0 va] by (simp_all add: uframe_def)
  show "copyout d va bs s = (if pde (mem s) d (PDX va) AND PTE_P = 0 then Stop (Fault ''uva2ka'') else Ok (- 1) s)"
  proof (cases "has_tab (mem s) d (PDX ?v0)")
    case True
    then show ?thesis using b v0 uva2ka_eq [OF True uspaceD(1) [OF assms(1)]]
      by (subst copyout.simps) (simp add: Let_def has_tab_def)
  next
    case False
    then show ?thesis using b v0 walk_absent [OF False]
      by (subst copyout.simps) (simp add: Let_def has_tab_def index_bounds uva2ka_def)
  qed
qed

text \<open>One user page at \<open>0x5000\<close>: the directory is at \<open>0x80401000\<close>, its table at \<open>0x80402000\<close>, the frame at \<open>0x80403000\<close>.\<close>

definition ex_user :: kmem where
  "ex_user = ex_kmem\<lparr>mem := st32 (pte_at 0x80402000 5) 0x403007 (st32 (pte_at 0x80401000 0) 0x402007 (\<lambda>_. 0))\<rparr>"

lemma ld32_zero: "ld32 (\<lambda>_. 0) a = 0"
  by (simp add: ld32_def)

lemma ex_user_pages: "kpage ex_user 0x80400000" "kpage ex_user 0x80401000" "kpage ex_user 0x80402000" "kpage ex_user 0x80403000"
  by (simp_all add: kpage_def ex_user_def ex_kmem_def PGSIZE_def v2p_def layout_defs)

lemma ex_user_cells:
  assumes "p mod PGSIZE = 0" and "unat i < 1024"
  shows "ld32 (mem ex_user) (pte_at p i) =
    (if p = 0x80402000 \<and> i = 5 then 0x403007 else if p = 0x80401000 \<and> i = 0 then 0x402007 else 0)"
proof -
  note a = kpage_mod [OF ex_user_pages(2)] kpage_mod [OF ex_user_pages(3)]
  have "pte_at p i = pte_at 0x80402000 5 \<longleftrightarrow> p = 0x80402000 \<and> i = 5" "pte_at p i = pte_at 0x80401000 0 \<longleftrightarrow> p = 0x80401000 \<and> i = 0"
    by (rule pte_at_inj [OF assms(1) a(2) assms(2)] pte_at_inj [OF assms(1) a(1) assms(2)]; simp)+
  moreover have "word_al (pte_at p i)" "word_al (pte_at 0x80402000 5)" "word_al (pte_at 0x80401000 0)"
    by (rule pte_cell(1) [OF assms] pte_cell(1) [OF a(2)] pte_cell(1) [OF a(1)]; simp)+
  ultimately show ?thesis by (simp add: ex_user_def ld32_st32 ld32_zero)
qed

lemma ex_user_tab: "has_tab (mem ex_user) 0x80401000 i \<longleftrightarrow> i = 0" "ptab (mem ex_user) 0x80401000 0 = 0x80402000"
proof -
  note a = kpage_mod [OF ex_user_pages(2)]
  show "has_tab (mem ex_user) 0x80401000 i \<longleftrightarrow> i = 0"
    using ex_user_cells [OF a, of i] by (cases "i = 0") (auto simp: has_tab_def pde_def PTE_P_def)
  show "ptab (mem ex_user) 0x80401000 0 = 0x80402000"
    using ex_user_cells [OF a, of 0] by (simp add: ptab_def pde_def PTE_ADDR_def p2v_def KERNBASE_def)
qed

lemma ex_user_frame: "uframe (mem ex_user) 0x80401000 v = (if PDX v = 0 \<and> PTX v = 5 then Some 0x80403000 else None)"
proof (cases "PDX v = 0")
  case True
  note a = kpage_mod [OF ex_user_pages(2)] kpage_mod [OF ex_user_pages(3)]
  have "pde (mem ex_user) 0x80401000 0 = 0x402007" using ex_user_cells [OF a(1), of 0] by (simp add: pde_def)
  moreover have "ld32 (mem ex_user) (pte_at 0x80402000 (PTX v)) = (if PTX v = 5 then 0x403007 else 0)"
    using ex_user_cells [OF a(2) index_bounds(2)] by simp
  ultimately show ?thesis using True ex_user_tab(2)
    by (simp add: uframe_def pt_lookup_def PTE_P_def PTE_U_def PTE_ADDR_def p2v_def KERNBASE_def)
next
  case False
  then have "pde (mem ex_user) 0x80401000 (PDX v) AND PTE_P = 0"
    using ex_user_tab(1) [of "PDX v"] by (simp add: has_tab_def index_bounds)
  with False show ?thesis by (simp add: uframe_def pt_lookup_def)
qed

lemma ex_user_space: "uspace 0x80401000 [0x80400000] ex_user"
proof -
  have "0x80400000 = pte_at 0x80400000 0" by (simp add: pte_at_def)
  then have "ld32 (mem ex_user) 0x80400000 = 0" using ex_user_cells [OF kpage_mod [OF ex_user_pages(1)], of 0] by simp
  then have "kmem_ready ex_user [0x80400000]"
    using kmem_ready_mem [OF ex_kmem_ready, of "mem ex_user"] by (simp add: ex_user_def ex_kmem_def ld32_zero)
  then have "pt_ok 0x80401000 [0x80400000] ex_user"
    using ex_user_pages unfolding pt_ok_def ex_user_tab(1) by (simp add: ex_user_tab(2))
  then show ?thesis unfolding uspace_def ex_user_frame ex_user_tab(1)
    using ex_user_pages(4) by (auto simp: ex_user_tab(2) same_page split: if_splits)
qed

theorem copyout_spec_witness:
  "\<exists>t. copyout 0x80401000 0x5010 [1, 2, 3] ex_user = Ok 0 t \<and> ubyte (mem t) 0x80401000 0x5011 = Some 2"
proof -
  have "uframe (mem ex_user) 0x80401000 w \<noteq> None" if "unat (0x5010 :: addr) \<le> unat w" "unat w < unat (0x5010 :: addr) + 3" for w
  proof -
    have "unat (PDX w) = 0" "unat (PTX w) = 5" using that by (simp_all add: unat_PDX unat_PTX)
    then have "PDX w = 0" "PTX w = 5" by (simp_all add: word_unat_eq_iff)
    then show ?thesis by (simp add: ex_user_frame)
  qed
  with copyout_spec [OF ex_user_space, of "0x5010" "[1, 2, 3]"] show ?thesis by fastforce
qed

end
