(* ===== verification/Console.thy ===== *)
theory Console
  imports Proc
begin

unbundle bit_operations_syntax

text \<open>
  console.c, the output half of uart.c, and kbd.c with the tables of kbd.h.

  The display is the CGA text memory and the cursor register; the serial port is the sequence of
  bytes written to it.  Format strings and strings printed are lists of bytes without their NUL.
  The message that \<open>panic\<close> prints is not modelled: a panic stops the kernel.
\<close>

section \<open>State\<close>

record kcons = kproc +
  panicked :: bool
  cons_locking :: bool
  uart_on :: bool
  uart_out :: "uchar list"
  crt :: "ushort list"
  crt_pos :: int
  in_buf :: "uchar list"
  in_r :: uint
  in_w :: uint
  in_e :: uint

definition BACKSPACE :: int where "BACKSPACE = 0x100"
definition INPUT_BUF :: nat where "INPUT_BUF = 128"
definition CONSOLE :: nat where "CONSOLE = 1"
definition newline :: int where "newline = 10"

section \<open>Output\<close>

definition uartputc :: "int \<Rightarrow> ('e kcons_scheme, unit) kop" where
  "uartputc c = modify (\<lambda>s. if uart_on s then s\<lparr>uart_out := uart_out s @ [of_int c]\<rparr> else s)"

text \<open>
  \<open>cgaputc\<close> on the text memory and the cursor position: put the character, scroll up by a row when
  the cursor has reached row 24, and show a blank at the cursor.
\<close>

definition cga_char :: "int \<Rightarrow> ushort" where
  "cga_char c = (of_int c AND 0xff) OR 0x0700"

definition cga_put :: "int \<Rightarrow> ushort list \<times> int \<Rightarrow> ushort list \<times> int" where
  "cga_put c = (\<lambda>(scr, pos).
     if c = newline then (scr, pos + (80 - pos mod 80))
     else if c = BACKSPACE then (scr, if pos > 0 then pos - 1 else pos)
     else (scr[nat pos := cga_char c], pos + 1))"

definition cga_scroll :: "ushort list \<times> int \<Rightarrow> ushort list \<times> int" where
  "cga_scroll = (\<lambda>(scr, pos).
     if pos div 80 \<ge> 24 then
       let up = take (23 * 80) (drop 80 scr) @ drop (23 * 80) scr; pos' = pos - 80
       in (take (nat pos') up @ replicate (24 * 80 - nat pos') 0 @ drop (24 * 80) up, pos')
     else (scr, pos))"

definition cga :: "int \<Rightarrow> ushort list \<times> int \<Rightarrow> ushort list \<times> int" where
  "cga c v = (let (scr, pos) = cga_scroll (cga_put c v) in (scr[nat pos := 0x20 OR 0x0700], pos))"

definition cgaputc :: "int \<Rightarrow> ('e kcons_scheme, unit) kop" where
  "cgaputc c = modify (\<lambda>s. let (scr, pos) = cga c (crt s, crt_pos s) in s\<lparr>crt := scr, crt_pos := pos\<rparr>)"

definition consputc :: "int \<Rightarrow> ('e kcons_scheme, unit) kop" where
  "consputc c =
     bnd (gets panicked) (\<lambda>p.
     if p then seq cli spin
     else
       seq (if c = BACKSPACE then seq (uartputc 8) (seq (uartputc 0x20) (uartputc 8))
            else uartputc c)
           (cgaputc c))"

text \<open>\<open>printint\<close>: the digits from the least significant one, then the sign, printed backwards.\<close>

definition digits :: "uchar list" where
  "digits = [0x30, 0x31, 0x32, 0x33, 0x34, 0x35, 0x36, 0x37, 0x38, 0x39, 0x61, 0x62, 0x63, 0x64, 0x65, 0x66]"

function digit_loop :: "uchar list \<Rightarrow> nat \<Rightarrow> nat \<Rightarrow> uchar list" where
  "digit_loop ds x base =
     ds ! (x mod base) # (if base < 2 \<or> x div base = 0 then [] else digit_loop ds (x div base) base)"
  by pat_completeness auto

termination
  by (relation "measure (\<lambda>(ds, x, base). x)") (auto simp: div_eq_0_iff intro!: div_less_dividend)

declare digit_loop.simps [simp del]

definition printint_chars :: "uchar list \<Rightarrow> int \<Rightarrow> nat \<Rightarrow> bool \<Rightarrow> uchar list" where
  "printint_chars ds xx base sign =
     (let neg = (sign \<and> xx < 0); x = (if neg then of_int (- xx) else of_int xx :: uint)
      in (if neg then [0x2d] else []) @ rev (digit_loop ds (unat x) base))"

definition printint :: "int \<Rightarrow> nat \<Rightarrow> bool \<Rightarrow> ('e kcons_scheme, unit) kop" where
  "printint xx base sign = forM (printint_chars digits xx base sign) (\<lambda>c. consputc (uint c))"

text \<open>An argument of \<open>cprintf\<close>: a word, or a pointer to a string (\<open>None\<close> is null).\<close>

datatype carg = AInt int | AStr "uchar list option"

definition null_chars :: "uchar list" where
  "null_chars = [0x28, 0x6e, 0x75, 0x6c, 0x6c, 0x29]"

fun cprintf_loop :: "uchar list \<Rightarrow> carg list \<Rightarrow> ('e kcons_scheme, unit) kop" where
  "cprintf_loop [] as = ret ()"
| "cprintf_loop [c] as = (if c \<noteq> 0x25 then consputc (uint c) else ret ())"
| "cprintf_loop (c # d # fmt) as =
     (if c \<noteq> 0x25 then seq (consputc (uint c)) (cprintf_loop (d # fmt) as)
      else if d = 0x64 then
        (case as of AInt n # as \<Rightarrow> seq (printint n 10 True) (cprintf_loop fmt as) | _ \<Rightarrow> fault ''cprintf'')
      else if d = 0x78 \<or> d = 0x70 then
        (case as of AInt n # as \<Rightarrow> seq (printint n 16 False) (cprintf_loop fmt as) | _ \<Rightarrow> fault ''cprintf'')
      else if d = 0x73 then
        (case as of
           AStr p # as \<Rightarrow>
             seq (forM (case p of None \<Rightarrow> null_chars | Some s \<Rightarrow> s) (\<lambda>c. consputc (uint c)))
                 (cprintf_loop fmt as)
         | _ \<Rightarrow> fault ''cprintf'')
      else if d = 0x25 then seq (consputc 0x25) (cprintf_loop fmt as)
      else seq (consputc 0x25) (seq (consputc (uint d)) (cprintf_loop fmt as)))"

definition cprintf :: "uchar list \<Rightarrow> carg list \<Rightarrow> ('e kcons_scheme, unit) kop" where
  "cprintf fmt as =
     bnd (gets cons_locking) (\<lambda>locking.
     seq (whenM locking (acquire ConsLock))
     (seq (cprintf_loop fmt as)
          (whenM locking (release ConsLock))))"

section \<open>Process listing (proc.c)\<close>

definition chars :: "string \<Rightarrow> uchar list" where
  "chars xs = map of_char xs"

fun state_name :: "procstate \<Rightarrow> uchar list" where
  "state_name UNUSED = chars ''unused''"
| "state_name EMBRYO = chars ''embryo''"
| "state_name SLEEPING = chars ''sleep ''"
| "state_name RUNNABLE = chars ''runble''"
| "state_name RUNNING = chars ''run   ''"
| "state_name ZOMBIE = chars ''zombie''"

definition procdump :: "('e kcons_scheme, unit) kop" where
  "procdump =
     forM [0..<NPROC] (\<lambda>i.
       bnd (gets (\<lambda>s. ptable s ! i)) (\<lambda>p.
       if state p = UNUSED then ret ()
       else
         seq (cprintf (chars ''%d %s %s'')
                [AInt (pid p), AStr (Some (state_name (state p))), AStr (Some (takeWhile (\<lambda>c. c \<noteq> 0) (pname p)))])
         (seq (if state p = SLEEPING then
                 bnd (gets (\<lambda>s. getcallerpcs (ld32 (mem s)) (ld32 (mem s) (pcontext p + 12) + 8))) (\<lambda>pcs.
                 forM (takeWhile (\<lambda>pc. pc \<noteq> 0) pcs) (\<lambda>pc. cprintf (chars '' %p'') [AInt (sint pc)]))
               else ret ())
              (cprintf [0x0a] []))))"

section \<open>Input\<close>

definition C_P :: int where "C_P = 0x10"
definition C_U :: int where "C_U = 0x15"
definition C_H :: int where "C_H = 0x08"
definition C_D :: int where "C_D = 0x04"

text \<open>The loop of control-U: at most \<open>INPUT_BUF\<close> characters are between \<open>w\<close> and \<open>e\<close>.\<close>

fun kill_line :: "nat \<Rightarrow> ('e kcons_scheme, unit) kop" where
  "kill_line 0 = spin"
| "kill_line (Suc n) =
     bnd (gets (\<lambda>s. in_e s \<noteq> in_w s \<and> in_buf s ! (unat (in_e s - 1) mod INPUT_BUF) \<noteq> 10)) (\<lambda>more.
     if more then
       seq (modify (\<lambda>s. s\<lparr>in_e := in_e s - 1\<rparr>))
       (seq (consputc BACKSPACE)
            (kill_line n))
     else ret ())"

definition console_char :: "int \<Rightarrow> ('e kcons_scheme, unit) kop" where
  "console_char c =
     (if c = C_P then procdump
      else if c = C_U then kill_line (Suc INPUT_BUF)
      else if c = C_H \<or> c = 0x7f then
        bnd (gets (\<lambda>s. in_e s \<noteq> in_w s)) (\<lambda>more.
        whenM more
          (seq (modify (\<lambda>s. s\<lparr>in_e := in_e s - 1\<rparr>))
               (consputc BACKSPACE)))
      else
        bnd (gets (\<lambda>s. in_e s - in_r s < of_nat INPUT_BUF)) (\<lambda>room.
        whenM (c \<noteq> 0 \<and> room)
          (let c = (if c = 13 then newline else c) in
           seq (modify (\<lambda>s. s\<lparr>in_buf := (in_buf s)[unat (in_e s) mod INPUT_BUF := of_int c],
                              in_e := in_e s + 1\<rparr>))
           (seq (consputc c)
           (bnd (gets (\<lambda>s. c = newline \<or> c = C_D \<or> in_e s = in_r s + of_nat INPUT_BUF)) (\<lambda>done.
            whenM done
              (seq (modify (\<lambda>s. s\<lparr>in_w := in_e s\<rparr>))
                   (wakeup ChInput))))))))"

text \<open>\<open>consoleintr\<close> on the characters that \<open>getc\<close> returns before it returns a negative number.\<close>

definition consoleintr :: "int list \<Rightarrow> ('e kcons_scheme, unit) kop" where
  "consoleintr cs =
     seq (acquire InputLock)
     (seq (forM cs console_char)
          (release InputLock))"

definition consoleread_end :: "nat \<Rightarrow> uchar list \<Rightarrow> ('e kcons_scheme, int \<times> uchar list) kop" where
  "consoleread_end ip acc =
     seq (release InputLock)
     (seq (ilock ip)
          (ret (int (length acc), acc)))"

text \<open>
  The loop of \<open>consoleread\<close>: \<open>n\<close> bytes are still wanted and \<open>acc\<close> have been delivered, so that
  \<open>n < target\<close> holds when \<open>acc\<close> is not empty.
\<close>

fun consoleread_loop :: "nat \<Rightarrow> nat \<Rightarrow> uchar list \<Rightarrow> ('e kcons_scheme, int \<times> uchar list) kop" where
  "consoleread_loop ip 0 acc = consoleread_end ip acc"
| "consoleread_loop ip (Suc n) acc =
     bnd (gets (\<lambda>s. in_r s = in_w s)) (\<lambda>empty.
     if empty then
       bnd cur_killed (\<lambda>k.
       if k then seq (release InputLock) (seq (ilock ip) (ret (- 1, acc)))
       else seq (sleep ChInput InputLock) spin)
     else
       bnd (gets (\<lambda>s. in_buf s ! (unat (in_r s) mod INPUT_BUF))) (\<lambda>c.
       seq (modify (\<lambda>s. s\<lparr>in_r := in_r s + 1\<rparr>))
       (if c = of_int C_D then
          seq (whenM (acc \<noteq> []) (modify (\<lambda>s. s\<lparr>in_r := in_r s - 1\<rparr>)))
              (consoleread_end ip acc)
        else if c = 10 then consoleread_end ip (acc @ [c])
        else consoleread_loop ip n (acc @ [c]))))"

definition consoleread_resume :: "nat \<Rightarrow> nat \<Rightarrow> uchar list \<Rightarrow> ('e kcons_scheme, int \<times> uchar list) kop" where
  "consoleread_resume ip n acc = seq (sleep_tail InputLock) (consoleread_loop ip n acc)"

definition consoleread :: "nat \<Rightarrow> int \<Rightarrow> ('e kcons_scheme, int \<times> uchar list) kop" where
  "consoleread ip n =
     seq (iunlock ip)
     (seq (acquire InputLock)
          (consoleread_loop ip (nat n) []))"

definition consolewrite :: "nat \<Rightarrow> uchar list \<Rightarrow> ('e kcons_scheme, int) kop" where
  "consolewrite ip src =
     seq (iunlock ip)
     (seq (acquire ConsLock)
     (seq (forM src (\<lambda>c. consputc (uint c)))
     (seq (release ConsLock)
     (seq (ilock ip)
          (ret (int (length src)))))))"

text \<open>The device table that \<open>consoleinit\<close> sets up; enabling the interrupt is left to the hardware.\<close>

definition console_devsw :: "'e kcons_scheme devsw" where
  "console_devsw = \<lparr>dev_read = (\<lambda>m. if m = CONSOLE then Some consoleread else None),
     dev_write = (\<lambda>m. if m = CONSOLE then Some consolewrite else None)\<rparr>"

definition consoleinit :: "('e kcons_scheme, unit) kop" where
  "consoleinit =
     seq (initlock ConsLock ''console'')
     (seq (initlock InputLock ''input'')
          (modify (\<lambda>s. s\<lparr>cons_locking := True\<rparr>)))"

section \<open>The keyboard\<close>

definition KBS_DIB :: uint where "KBS_DIB = 1"
definition SHIFT :: uint where "SHIFT = 1"
definition CTL :: uint where "CTL = 2"
definition ALT :: uint where "ALT = 4"
definition CAPSLOCK :: uint where "CAPSLOCK = 8"
definition NUMLOCK :: uint where "NUMLOCK = 16"
definition SCROLLLOCK :: uint where "SCROLLLOCK = 32"
definition E0ESC :: uint where "E0ESC = 64"

definition shiftcode :: "nat \<Rightarrow> uint" where
  "shiftcode i = (case map_of [(0x1d, 2), (0x2a, 1), (0x36, 1), (0x38, 4), (0x9d, 2), (0xb8, 4)] i of Some c \<Rightarrow> c | None \<Rightarrow> 0)"

definition togglecode :: "nat \<Rightarrow> uint" where
  "togglecode i = (case map_of [(0x3a, 8), (0x45, 16), (0x46, 32)] i of Some c \<Rightarrow> c | None \<Rightarrow> 0)"

definition normalmap :: "nat \<Rightarrow> uchar" where
  "normalmap i =
     (if i < 88 then
        [0x00, 0x1b, 0x31, 0x32, 0x33, 0x34, 0x35, 0x36, 0x37, 0x38, 0x39, 0x30, 0x2d, 0x3d, 0x08, 0x09,
         0x71, 0x77, 0x65, 0x72, 0x74, 0x79, 0x75, 0x69, 0x6f, 0x70, 0x5b, 0x5d, 0x0a, 0x00, 0x61, 0x73,
         0x64, 0x66, 0x67, 0x68, 0x6a, 0x6b, 0x6c, 0x3b, 0x27, 0x60, 0x00, 0x5c, 0x7a, 0x78, 0x63, 0x76,
         0x62, 0x6e, 0x6d, 0x2c, 0x2e, 0x2f, 0x00, 0x2a, 0x00, 0x20, 0x00, 0x00, 0x00, 0x00, 0x00, 0x00,
         0x00, 0x00, 0x00, 0x00, 0x00, 0x00, 0x00, 0x37, 0x38, 0x39, 0x2d, 0x34, 0x35, 0x36, 0x2b, 0x31,
         0x32, 0x33, 0x30, 0x2e, 0x00, 0x00, 0x00, 0x00] ! i
      else (case map_of [(0x97, 0xe0), (0x9c, 0x0a), (0xb5, 0x2f), (0xc8, 0xe2), (0xc9, 0xe6), (0xcb, 0xe4), (0xcd, 0xe5), (0xcf, 0xe1), (0xd0, 0xe3), (0xd1, 0xe7), (0xd2, 0xe8), (0xd3, 0xe9)] i of Some c \<Rightarrow> c | None \<Rightarrow> 0))"

definition shiftmap :: "nat \<Rightarrow> uchar" where
  "shiftmap i =
     (if i < 88 then
        [0x00, 0x1b, 0x21, 0x40, 0x23, 0x24, 0x25, 0x5e, 0x26, 0x2a, 0x28, 0x29, 0x5f, 0x2b, 0x08, 0x09,
         0x51, 0x57, 0x45, 0x52, 0x54, 0x59, 0x55, 0x49, 0x4f, 0x50, 0x7b, 0x7d, 0x0a, 0x00, 0x41, 0x53,
         0x44, 0x46, 0x47, 0x48, 0x4a, 0x4b, 0x4c, 0x3a, 0x22, 0x7e, 0x00, 0x7c, 0x5a, 0x58, 0x43, 0x56,
         0x42, 0x4e, 0x4d, 0x3c, 0x3e, 0x3f, 0x00, 0x2a, 0x00, 0x20, 0x00, 0x00, 0x00, 0x00, 0x00, 0x00,
         0x00, 0x00, 0x00, 0x00, 0x00, 0x00, 0x00, 0x37, 0x38, 0x39, 0x2d, 0x34, 0x35, 0x36, 0x2b, 0x31,
         0x32, 0x33, 0x30, 0x2e, 0x00, 0x00, 0x00, 0x00] ! i
      else (case map_of [(0x97, 0xe0), (0x9c, 0x0a), (0xb5, 0x2f), (0xc8, 0xe2), (0xc9, 0xe6), (0xcb, 0xe4), (0xcd, 0xe5), (0xcf, 0xe1), (0xd0, 0xe3), (0xd1, 0xe7), (0xd2, 0xe8), (0xd3, 0xe9)] i of Some c \<Rightarrow> c | None \<Rightarrow> 0))"

definition ctlmap :: "nat \<Rightarrow> uchar" where
  "ctlmap i =
     (if i < 56 then
        [0x00, 0x00, 0x00, 0x00, 0x00, 0x00, 0x00, 0x00, 0x00, 0x00, 0x00, 0x00, 0x00, 0x00, 0x00, 0x00,
         0x11, 0x17, 0x05, 0x12, 0x14, 0x19, 0x15, 0x09, 0x0f, 0x10, 0x00, 0x00, 0x0d, 0x00, 0x01, 0x13,
         0x04, 0x06, 0x07, 0x08, 0x0a, 0x0b, 0x0c, 0x00, 0x00, 0x00, 0x00, 0x1c, 0x1a, 0x18, 0x03, 0x16,
         0x02, 0x0e, 0x0d, 0x00, 0x00, 0xef, 0x00, 0x00] ! i
      else (case map_of [(0x97, 0xe0), (0x9c, 0x0d), (0xb5, 0xef), (0xc8, 0xe2), (0xc9, 0xe6), (0xcb, 0xe4), (0xcd, 0xe5), (0xcf, 0xe1), (0xd0, 0xe3), (0xd1, 0xe7), (0xd2, 0xe8), (0xd3, 0xe9)] i of Some c \<Rightarrow> c | None \<Rightarrow> 0))"

definition charcode :: "uint \<Rightarrow> nat \<Rightarrow> uchar" where
  "charcode k = [normalmap, shiftmap, ctlmap, ctlmap] ! unat k"

text \<open>
  \<open>kbdgetc\<close> from the static variable \<open>shift\<close>, the status byte and the data byte of the controller: the
  result, and the new value of \<open>shift\<close>.
\<close>

definition kbdgetc :: "uint \<Rightarrow> uint \<Rightarrow> uint \<Rightarrow> int \<times> uint" where
  "kbdgetc shift st dat =
     (if st AND KBS_DIB = 0 then (- 1, shift)
      else if dat = 0xE0 then (0, shift OR E0ESC)
      else if dat AND 0x80 \<noteq> 0 then
        let d = (if shift AND E0ESC \<noteq> 0 then dat else dat AND 0x7F)
        in (0, shift AND NOT (shiftcode (unat d) OR E0ESC))
      else
        let d = (if shift AND E0ESC \<noteq> 0 then dat OR 0x80 else dat);
            sh = (if shift AND E0ESC \<noteq> 0 then shift AND NOT E0ESC else shift);
            sh' = (sh OR shiftcode (unat d)) XOR togglecode (unat d);
            c = uint (charcode (sh' AND (CTL OR SHIFT)) (unat d))
        in (if sh' AND CAPSLOCK \<noteq> 0 then
              if 0x61 \<le> c \<and> c \<le> 0x7a then c + 0x41 - 0x61
              else if 0x41 \<le> c \<and> c \<le> 0x5a then c + 0x61 - 0x41 else c
            else c, sh'))"

text \<open>\<open>kbdintr\<close> on the status and data bytes that successive calls read.\<close>

fun kbd_chars :: "uint \<Rightarrow> (uint \<times> uint) list \<Rightarrow> int list \<times> uint" where
  "kbd_chars shift [] = ([], shift)"
| "kbd_chars shift ((st, dat) # ins) =
     (let (c, sh) = kbdgetc shift st dat
      in if c < 0 then ([], sh) else let (cs, sh') = kbd_chars sh ins in (c # cs, sh'))"

definition kbdintr :: "uint \<Rightarrow> (uint \<times> uint) list \<Rightarrow> ('e kcons_scheme, uint) kop" where
  "kbdintr shift ins = (let (cs, sh) = kbd_chars shift ins in seq (consoleintr cs) (ret sh))"

end
