(* ===== verification/Syscall.thy ===== *)
theory Syscall
  imports Console
begin

unbundle bit_operations_syntax

text \<open>
  System call arguments (syscall.c), the process calls (sysproc.c), exec.c with \<open>loaduvm\<close> of vm.c,
  and the file calls (sysfile.c).

  The kernel reads and writes user memory through the current page table: \<open>user_pa\<close> is the
  translation of the paging hardware, and an access to an address without a present entry (for a
  write, a writable one) is a fault.  A string argument is the list of its bytes.
\<close>

section \<open>State\<close>

record ksys = kcons +
  ticks :: uint
  kbd_shift :: uint

section \<open>User memory\<close>

definition user_pte :: "'e kmem_scheme \<Rightarrow> addr \<Rightarrow> uint" where
  "user_pte s va =
     (let pde = ld32 (mem s) (pte_at (p2v (cr3 (mycpu s))) (PDX va))
      in if pde AND PTE_P = 0 then 0
         else ld32 (mem s) (pte_at (p2v (PTE_ADDR pde)) (PTX va)))"

definition user_pa :: "bool \<Rightarrow> addr \<Rightarrow> ('e kmem_scheme, addr) kop" where
  "user_pa wr va = (\<lambda>s.
     let e = user_pte s va in
     if e AND PTE_P = 0 \<or> wr \<and> e AND PTE_W = 0 then Stop (Fault ''page fault'')
     else Ok (p2v (PTE_ADDR e) + (va AND 0xFFF)) s)"

definition uld8 :: "addr \<Rightarrow> ('e kmem_scheme, uchar) kop" where
  "uld8 va = bnd (user_pa False va) (\<lambda>a. gets (\<lambda>s. mem s a))"

definition ust8 :: "addr \<Rightarrow> uchar \<Rightarrow> ('e kmem_scheme, unit) kop" where
  "ust8 va b = bnd (user_pa True va) (\<lambda>a. modify (\<lambda>s. s\<lparr>mem := (mem s)(a := b)\<rparr>))"

fun uld :: "addr \<Rightarrow> nat \<Rightarrow> ('e kmem_scheme, uchar list) kop" where
  "uld va 0 = ret []"
| "uld va (Suc n) = bnd (uld8 va) (\<lambda>b. bnd (uld (va + 1) n) (\<lambda>bs. ret (b # bs)))"

fun ust :: "addr \<Rightarrow> uchar list \<Rightarrow> ('e kmem_scheme, unit) kop" where
  "ust va [] = ret ()"
| "ust va (b # bs) = seq (ust8 va b) (ust (va + 1) bs)"

section \<open>Arguments (syscall.c)\<close>

text \<open>\<open>None\<close> is the result -1.\<close>

definition fetchint :: "addr \<Rightarrow> ('e ksched_scheme, uint option) kop" where
  "fetchint a =
     bnd curproc (\<lambda>c.
     bnd (gets (\<lambda>s. sz (ptable s ! c))) (\<lambda>psz.
     if a \<ge> psz \<or> a + 4 > psz \<or> a = 0 then ret None
     else bnd (uld a 4) (\<lambda>bs. ret (Some (rd32 bs 0)))))"

fun fetchstr_loop :: "nat \<Rightarrow> addr \<Rightarrow> ('e ksched_scheme, uchar list option) kop" where
  "fetchstr_loop 0 a = ret None"
| "fetchstr_loop (Suc n) a =
     bnd (uld8 a) (\<lambda>b.
     if b = 0 then ret (Some [])
     else bnd (fetchstr_loop n (a + 1)) (\<lambda>r. ret (map_option (\<lambda>bs. b # bs) r)))"

definition fetchstr :: "addr \<Rightarrow> ('e ksched_scheme, uchar list option) kop" where
  "fetchstr a =
     bnd curproc (\<lambda>c.
     bnd (gets (\<lambda>s. sz (ptable s ! c))) (\<lambda>psz.
     if a \<ge> psz \<or> a = 0 then ret None
     else fetchstr_loop (unat psz - unat a) a))"

definition argint :: "uint \<Rightarrow> ('e ksched_scheme, uint option) kop" where
  "argint n =
     bnd curproc (\<lambda>c.
     bnd (gets (tf_get TF_esp c)) (\<lambda>esp.
     fetchint (esp + 4 + 4 * n)))"

text \<open>The size argument of \<open>argptr\<close> is an \<open>int\<close>; added to an unsigned number it wraps around.\<close>

definition argptr :: "uint \<Rightarrow> int \<Rightarrow> ('e ksched_scheme, addr option) kop" where
  "argptr n size_arg =
     bnd (argint n) (\<lambda>r.
     case r of
       None \<Rightarrow> ret None
     | Some i \<Rightarrow>
         bnd curproc (\<lambda>c.
         bnd (gets (\<lambda>s. sz (ptable s ! c))) (\<lambda>psz.
         if i \<ge> psz \<or> i + of_int size_arg > psz \<or> i = 0 then ret None
         else ret (Some i))))"

definition argstr :: "uint \<Rightarrow> ('e ksched_scheme, uchar list option) kop" where
  "argstr n =
     bnd (argint n) (\<lambda>r.
     case r of None \<Rightarrow> ret None | Some a \<Rightarrow> fetchstr a)"

section \<open>Process calls (sysproc.c)\<close>

definition sys_fork :: "('e kproc_scheme, int) kop" where
  "sys_fork = fork"

definition sys_clone :: "('e kproc_scheme, int) kop" where
  "sys_clone =
     bnd (argint 1) (\<lambda>siz.
     case siz of None \<Rightarrow> ret (- 1) | Some siz \<Rightarrow>
     if sint siz \<le> 0 then ret (- 1)
     else
       bnd (argint 0) (\<lambda>stack. case stack of None \<Rightarrow> ret (- 1) | Some stack \<Rightarrow>
       bnd (argint 2) (\<lambda>routine. case routine of None \<Rightarrow> ret (- 1) | Some routine \<Rightarrow>
       bnd (argint 3) (\<lambda>arg. case arg of None \<Rightarrow> ret (- 1) | Some arg \<Rightarrow>
       clone stack (sint siz) routine arg))))"

definition sys_exit :: "('e kproc_scheme, int) kop" where
  "sys_exit = seq exit (ret 0)"

definition sys_texit :: "('e kproc_scheme, int) kop" where
  "sys_texit = seq texit (ret 0)"

definition sys_wait :: "('e kproc_scheme, int) kop" where
  "sys_wait = wait"

definition sys_kill :: "('e ksched_scheme, int) kop" where
  "sys_kill = bnd (argint 0) (\<lambda>r. case r of None \<Rightarrow> ret (- 1) | Some n \<Rightarrow> kill (sint n))"

definition sys_getpid :: "('e ksched_scheme, int) kop" where
  "sys_getpid = bnd curproc (\<lambda>c. gets (\<lambda>s. pid (ptable s ! c)))"

definition sys_sbrk :: "('e kproc_scheme, int) kop" where
  "sys_sbrk =
     bnd (argint 0) (\<lambda>r. case r of None \<Rightarrow> ret (- 1) | Some n \<Rightarrow>
     bnd curproc (\<lambda>c.
     bnd (gets (\<lambda>s. sz (ptable s ! c))) (\<lambda>a.
     bnd (growproc (sint n)) (\<lambda>e.
     if e < 0 then ret (- 1) else ret (sint a)))))"

text \<open>In \<open>ticks - ticks0 < n\<close> both sides are unsigned.\<close>

definition sys_sleep_loop :: "uint \<Rightarrow> uint \<Rightarrow> ('e ksys_scheme, int) kop" where
  "sys_sleep_loop ticks0 n =
     bnd (gets ticks) (\<lambda>tk.
     if tk - ticks0 < n then
       bnd cur_killed (\<lambda>k.
       if k then seq (release TicksLock) (ret (- 1))
       else seq (sleep ChTicks TicksLock) spin)
     else seq (release TicksLock) (ret 0))"

definition sys_sleep_resume :: "uint \<Rightarrow> uint \<Rightarrow> ('e ksys_scheme, int) kop" where
  "sys_sleep_resume ticks0 n = seq (sleep_tail TicksLock) (sys_sleep_loop ticks0 n)"

definition sys_sleep :: "('e ksys_scheme, int) kop" where
  "sys_sleep =
     bnd (argint 0) (\<lambda>r. case r of None \<Rightarrow> ret (- 1) | Some n \<Rightarrow>
     seq (acquire TicksLock)
     (bnd (gets ticks) (\<lambda>ticks0. sys_sleep_loop ticks0 n)))"

definition sys_uptime :: "('e ksys_scheme, int) kop" where
  "sys_uptime =
     seq (acquire TicksLock)
     (bnd (gets ticks) (\<lambda>x.
      seq (release TicksLock) (ret (sint x))))"

definition sys_tsleep :: "('e ksched_scheme, int) kop" where
  "sys_tsleep = seq tsleep (ret 0)"

definition sys_twakeup :: "('e ksched_scheme, int) kop" where
  "sys_twakeup =
     bnd (argint 0) (\<lambda>r. case r of None \<Rightarrow> ret (- 1) | Some tid \<Rightarrow>
     seq (twakeup (sint tid)) (ret 0))"

definition sys_thread_yield :: "('e kproc_scheme, int) kop" where
  "sys_thread_yield = seq thread_yield (ret 0)"

definition sys_thread_yield3 :: "('e ksched_scheme, int) kop" where
  "sys_thread_yield3 =
     bnd (argint 0) (\<lambda>r. case r of None \<Rightarrow> ret (- 1) | Some tid \<Rightarrow>
     seq (thread_yield3 (sint tid)) (ret 0))"

section \<open>Loading programs (exec.c)\<close>

definition ELF_MAGIC :: uint where "ELF_MAGIC = 0x464C457F"
definition ELF_PROG_LOAD :: uint where "ELF_PROG_LOAD = 1"

record elfhdr =
  e_magic :: uint
  e_entry :: uint
  e_phoff :: uint
  e_phnum :: ushort

record proghdr =
  p_type :: uint
  p_off :: uint
  p_vaddr :: uint
  p_filesz :: uint
  p_memsz :: uint

definition dec_elfhdr :: "uchar list \<Rightarrow> elfhdr" where
  "dec_elfhdr xs = \<lparr>e_magic = rd32 xs 0, e_entry = rd32 xs 24, e_phoff = rd32 xs 28, e_phnum = rd16 xs 44\<rparr>"

definition dec_proghdr :: "uchar list \<Rightarrow> proghdr" where
  "dec_proghdr xs = \<lparr>p_type = rd32 xs 0, p_off = rd32 xs 4, p_vaddr = rd32 xs 8, p_filesz = rd32 xs 16,
     p_memsz = rd32 xs 20\<rparr>"

text \<open>
  \<open>loaduvm\<close>; \<open>i\<close> takes the values \<open>0, PGSIZE, ...\<close> below \<open>sz\<close>.  A short read leaves the bytes that
  were read in the page.
\<close>

definition loaduvm ::
  "'e kfs_scheme devsw \<Rightarrow> addr \<Rightarrow> addr \<Rightarrow> nat \<Rightarrow> uint \<Rightarrow> uint \<Rightarrow> ('e kfs_scheme, int) kop" where
  "loaduvm dv pd va ip off sz_arg =
     (if va mod PGSIZE \<noteq> 0 then panic ''loaduvm: addr must be page aligned''
      else
        bnd (loopE (page_range 0 sz_arg) (\<lambda>i.
          bnd (walkpgdir pd (va + i) False) (\<lambda>pte.
          if pte = 0 then panic ''loaduvm: address should exist''
          else
            bnd (gets (\<lambda>s. PTE_ADDR (ld32 (mem s) pte))) (\<lambda>pa.
            let n = (if sz_arg - i < PGSIZE then sz_arg - i else PGSIZE) in
            bnd (readi dv ip (off + i) n) (\<lambda>(r, bytes).
            seq (modify (\<lambda>s. s\<lparr>mem := write_bytes (p2v pa) bytes (mem s)\<rparr>))
                (ret (if r \<noteq> sint n then Some (- 1) else None))))))) (\<lambda>early.
        case early of Some r \<Rightarrow> ret r | None \<Rightarrow> ret 0))"

text \<open>
  \<open>exec\<close> up to the label \<open>bad\<close>: each stage returns \<open>None\<close> for \<open>goto bad\<close>.  \<open>exec_load\<close> loads the
  segments and returns the size of the image.
\<close>

definition exec_load :: "'e kfs_scheme devsw \<Rightarrow> nat \<Rightarrow> addr \<Rightarrow> elfhdr \<Rightarrow> ('e kfs_scheme, uint option) kop" where
  "exec_load dv ip pd elf =
     bnd (allocuvm pd 0 PGSIZE) (\<lambda>sz0.
     if sz0 = 0 then ret None
     else
       let step = (\<lambda>off. \<lambda>szo.
         (case szo of
            None \<Rightarrow> ret None
          | Some z \<Rightarrow>
              bnd (readi dv ip off 32) (\<lambda>(r, bytes).
              let ph = dec_proghdr bytes in
              if r \<noteq> 32 then ret None
              else if p_type ph \<noteq> ELF_PROG_LOAD then ret (Some z)
              else if p_memsz ph < p_filesz ph then ret None
              else
                bnd (allocuvm pd z (p_vaddr ph + p_memsz ph)) (\<lambda>z'.
                if z' = 0 then ret None
                else
                  bnd (loaduvm dv pd (p_vaddr ph) ip (p_off ph) (p_filesz ph)) (\<lambda>e.
                  if e < 0 then ret None else ret (Some z'))))))
       in fold (\<lambda>i m. bnd m (step (e_phoff elf + 32 * of_nat i))) [0..<unat (e_phnum elf)] (ret (Some sz0)))"

text \<open>
  The argument strings from the top of the stack down: \<open>None\<close> for \<open>goto bad\<close>, otherwise the new stack
  pointer and the pointers collected in \<open>ustack\<close>.
\<close>

fun exec_args :: "addr \<Rightarrow> nat \<Rightarrow> uchar list list \<Rightarrow> addr \<Rightarrow> ('e kmem_scheme, (addr \<times> addr list) option) kop" where
  "exec_args pd argc [] sp = ret (Some (sp, []))"
| "exec_args pd argc (a # as) sp =
     (if argc \<ge> MAXARG then ret None
      else
        let sp' = (sp - (of_nat (length a) + 1)) AND NOT 3 in
        bnd (copyout pd sp' (a @ [0])) (\<lambda>e.
        if e < 0 then ret None
        else
          bnd (exec_args pd (Suc argc) as sp') (\<lambda>r.
          ret (map_option (\<lambda>(q, ps). (q, sp' # ps)) r))))"

definition word_bytes :: "uint \<Rightarrow> uchar list" where
  "word_bytes v = wr32 0 v [0, 0, 0, 0]"

definition exec_stack :: "addr \<Rightarrow> uint \<Rightarrow> uchar list list \<Rightarrow> ('e kmem_scheme, addr option) kop" where
  "exec_stack pd tos argv =
     bnd (exec_args pd 0 argv tos) (\<lambda>r.
     case r of
       None \<Rightarrow> ret None
     | Some (sp, ps) \<Rightarrow>
         let argc = of_nat (length argv);
             ustack = [0xffffffff, argc, sp - (argc + 1) * 4] @ ps @ [0];
             sp' = sp - (3 + argc + 1) * 4 in
         bnd (copyout pd sp' (concat (map word_bytes ustack))) (\<lambda>e.
         ret (if e < 0 then None else Some sp')))"

text \<open>The part of a path after its last slash.\<close>

definition base_name :: "uchar list \<Rightarrow> uchar list" where
  "base_name path = rev (takeWhile (\<lambda>c. c \<noteq> slash) (rev path))"

definition exec_bad :: "addr \<Rightarrow> nat option \<Rightarrow> ('e kfs_scheme, int) kop" where
  "exec_bad pd ip =
     seq (whenM (pd \<noteq> 0) (freevm pd))
     (seq (case ip of None \<Rightarrow> ret () | Some i \<Rightarrow> iunlockput i)
          (ret (- 1)))"

definition exec_commit :: "uchar list \<Rightarrow> addr \<Rightarrow> uint \<Rightarrow> uint \<Rightarrow> addr \<Rightarrow> ('e kproc_scheme, int) kop" where
  "exec_commit path pd isz entry sp =
     bnd curproc (\<lambda>c.
     seq (modify (upd_proc c (\<lambda>q. q\<lparr>pname := name_cpy (base_name path) (pname q)\<rparr>)))
     (bnd (gets (\<lambda>s. pgdir (ptable s ! c))) (\<lambda>old.
      seq (modify (upd_proc c (\<lambda>q. q\<lparr>pgdir := pd\<rparr>)))
      (seq (modify (upd_proc c (\<lambda>q. q\<lparr>sz := isz\<rparr>)))
      (seq (tf_set TF_eip entry c)
      (seq (tf_set TF_esp sp c)
      (seq (switchuvm c)
      (seq (freevm old)
           (ret 0)))))))))"

text \<open>
  The test of the header's length compares \<open>readi\<close>'s result with an unsigned number, so a result of -1
  passes it.
\<close>

definition exec :: "'e kproc_scheme devsw \<Rightarrow> uchar list \<Rightarrow> uchar list list \<Rightarrow> ('e kproc_scheme, int) kop" where
  "exec dv path argv =
     bnd (namei dv path) (\<lambda>r. case r of None \<Rightarrow> ret (- 1) | Some ip \<Rightarrow>
     seq (ilock ip)
     (bnd (readi dv ip 0 52) (\<lambda>(n, bytes).
      let elf = dec_elfhdr bytes in
      if (of_int n :: uint) < 52 \<or> e_magic elf \<noteq> ELF_MAGIC then exec_bad 0 (Some ip)
      else
        bnd setupkvm (\<lambda>pd.
        if pd = 0 then exec_bad 0 (Some ip)
        else
          bnd (exec_load dv ip pd elf) (\<lambda>r.
          case r of None \<Rightarrow> exec_bad pd (Some ip) | Some isz \<Rightarrow>
          seq (iunlockput ip)
          (bnd (allocuvm pd (PGROUNDUP isz) (PGROUNDUP isz + 2 * PGSIZE)) (\<lambda>tos.
           if tos = 0 then exec_bad pd None
           else
             bnd curproc (\<lambda>c.
             seq (modify (upd_proc c (\<lambda>q. q\<lparr>pstack := tos\<rparr>)))
             (seq (clearpteu pd (tos - 2 * PGSIZE))
             (bnd (exec_stack pd tos argv) (\<lambda>r.
              case r of None \<Rightarrow> exec_bad pd None | Some sp \<Rightarrow>
              exec_commit path pd tos (e_entry elf) sp)))))))))))"

end
