(* ===== verification/Sysargs.thy ===== *)
theory Sysargs
  imports Syscall
begin

unbundle bit_operations_syntax

text \<open>
  What the argument functions of syscall.c guarantee: pointers and strings that they accept lie inside the memory of the process.
\<close>

definition upresent :: "'e kmem_scheme \<Rightarrow> addr \<Rightarrow> bool" where
  "upresent s v \<longleftrightarrow> user_pte s v AND PTE_P \<noteq> 0"

definition kbyte :: "'e kmem_scheme \<Rightarrow> addr \<Rightarrow> uchar" where
  "kbyte s v = mem s (p2v (PTE_ADDR (user_pte s v)) + (v AND 0xFFF))"

lemma unat_of_nat_small: "j < 2 ^ 32 \<Longrightarrow> unat (of_nat j :: uint) = j"
  by (simp add: unat_of_nat)

lemma uld8_present: "upresent s v \<Longrightarrow> uld8 v s = Ok (kbyte s v) s"
  by (simp add: uld8_def user_pa_def Let_def upresent_def kbyte_def)

text \<open>The bytes of the process from an address on.\<close>

definition ubytes :: "'e kmem_scheme \<Rightarrow> addr \<Rightarrow> nat \<Rightarrow> uchar list" where
  "ubytes s a n = map (\<lambda>i. kbyte s (a + of_nat i)) [0..<n]"

lemma ubytes_simps: "ubytes s a 0 = []" "ubytes s a (Suc n) = kbyte s a # ubytes s (a + 1) n"
proof -
  have "map (\<lambda>i. kbyte s (a + of_nat i)) [0..<Suc n] = kbyte s (a + of_nat 0) # map (\<lambda>i. kbyte s (a + of_nat (Suc i))) [0..<n]"
    by (simp only: upt_rec [of 0 "Suc n"] map_Suc_upt [symmetric]) (simp add: comp_def)
  then show "ubytes s a (Suc n) = kbyte s a # ubytes s (a + 1) n" by (simp add: ubytes_def add.assoc)
qed (simp add: ubytes_def)

lemma uld_present:
  "(\<And>i. i < n \<Longrightarrow> upresent s (a + of_nat i)) \<Longrightarrow> uld a n s = Ok (ubytes s a n) s"
proof (induction n arbitrary: a)
  case (Suc n)
  have "uld (a + 1) n s = Ok (ubytes s (a + 1) n) s" using Suc.prems [of "Suc _"] by (intro Suc.IH) (simp add: add.assoc)
  then show ?case using Suc.prems [of 0] by (simp add: uld8_present ubytes_simps)
qed (simp add: ubytes_simps)

lemma fetchstr_loop_present:
  "(\<And>i. i < n \<Longrightarrow> upresent s (a + of_nat i)) \<Longrightarrow>
   fetchstr_loop n a s = Ok (if 0 \<in> set (ubytes s a n) then Some (takeWhile (\<lambda>b. b \<noteq> 0) (ubytes s a n)) else None) s"
proof (induction n arbitrary: a)
  case (Suc n)
  have "fetchstr_loop n (a + 1) s = Ok (if 0 \<in> set (ubytes s (a + 1) n) then Some (takeWhile (\<lambda>b. b \<noteq> 0) (ubytes s (a + 1) n)) else None) s"
    using Suc.prems [of "Suc _"] by (intro Suc.IH) (simp add: add.assoc)
  then show ?case using Suc.prems [of 0] by (simp add: uld8_present ubytes_simps)
qed (simp add: ubytes_simps)


text \<open>
  C16 (pointer arguments). A pointer that \<open>argptr\<close> accepts for a size that is not negative points to that many bytes inside the process, and is
  not null.  A negative size is added modulo \<open>2 ^ 32\<close>: every pointer into the process passes if the size is small enough.
\<close>

theorem argptr_bounds:
  assumes "cproc (mycpu s) = Some c" and "argint n s = Ok (Some i) s" and "sz (ptable s ! c) \<le> KERNBASE"
  shows "(0 \<le> k \<and> k < 2 ^ 31 \<longrightarrow>
      argptr n k s = Ok (if i \<noteq> 0 \<and> i < sz (ptable s ! c) \<and> unat i + nat k \<le> unat (sz (ptable s ! c)) then Some i else None) s) \<and>
    (k < 0 \<and> - int (unat i) \<le> k \<and> i \<noteq> 0 \<and> i < sz (ptable s ! c) \<longrightarrow> argptr n k s = Ok (Some i) s)"
proof (intro conjI impI)
  let ?z = "sz (ptable s ! c)"
  have z: "unat ?z \<le> 0x80000000" using assms(3) by (simp add: word_le_nat_alt KERNBASE_def)
  have cp: "curproc s = Ok c s" using assms(1) by (simp add: curproc_def)
  have eq: "argptr n k s = Ok (if i \<ge> ?z \<or> i + of_int k > ?z \<or> i = 0 then None else Some i) s"
    using assms(2) cp by (simp add: argptr_def)
  {
    assume k: "0 \<le> k \<and> k < 2 ^ 31"
    have "unat (of_nat (nat k) :: uint) = nat k" by (rule unat_of_nat_small) (use k in \<open>simp add: nat_less_iff\<close>)
    then have uk: "unat (of_int k :: uint) = nat k" using k by simp
    have "unat (i + of_int k) = unat i + nat k" if "i < ?z"
    proof -
      have "nat k < 2 ^ 31" using k by (simp add: nat_less_iff)
      then have "unat i + nat k < 2 ^ 32" using that z by (simp add: word_less_nat_alt)
      then show ?thesis unfolding unat_word_ariths uk by simp
    qed
    then show "argptr n k s = Ok (if i \<noteq> 0 \<and> i < ?z \<and> unat i + nat k \<le> unat ?z then Some i else None) s"
      unfolding eq by (auto simp: word_less_nat_alt word_le_nat_alt)
  next
    assume k: "k < 0 \<and> - int (unat i) \<le> k \<and> i \<noteq> 0 \<and> i < ?z"
    have le: "nat (- k) \<le> unat i" using k by linarith
    moreover have "unat (of_nat (nat (- k)) :: uint) = nat (- k)"
      using le_less_trans [OF le unsigned_less] by (intro unat_of_nat_small) simp
    ultimately have "unat (i - of_nat (nat (- k))) \<le> unat i" unfolding unat_sub_if' by simp
    moreover have "i + of_int k = i - of_nat (nat (- k))" using k by simp
    ultimately have "unat (i + of_int k) \<le> unat i" by (simp only:)
    moreover have "unat i < unat ?z" using k by (simp add: word_less_nat_alt)
    ultimately have "i + of_int k \<le> ?z" unfolding word_le_nat_alt by linarith
    then show "argptr n k s = Ok (Some i) s" unfolding eq using k by (auto simp: not_less)
  }
qed

section \<open>A concrete process\<close>

text \<open>The process has one page, at \<open>0x5000\<close>; its stack pointer is \<open>0x5000\<close>, its first argument is \<open>0x5010\<close>, and a string is at \<open>0x5008\<close>.\<close>

definition ex_args :: ksched where
  "ex_args = (set_mycpu (\<lambda>c. c\<lparr>cproc := Some 0, cr3 := 0x401000\<rparr>) ex_sched)
     \<lparr>ptable := [ex_proc\<lparr>sz := 0x6000, tf := 0x80301000\<rparr>],
      mem := write_bytes 0x80403004 [0x10, 0x50, 0, 0, 0x68, 0x69, 0]
        (st32 0x80301044 0x5000 (st32 0x80402014 0x403007 (st32 0x80401000 0x402007 (\<lambda>_. 0))))\<rparr>"

lemma ex_args_simps:
  "cproc (mycpu ex_args) = Some 0" "cr3 (mycpu ex_args) = 0x401000" "ptable ex_args = [ex_proc\<lparr>sz := 0x6000, tf := 0x80301000\<rparr>]"
  "mem ex_args 0x80403004 = 0x10" "mem ex_args 0x80403005 = 0x50" "mem ex_args 0x80403006 = 0" "mem ex_args 0x80403007 = 0"
  "mem ex_args 0x80403008 = 0x68" "mem ex_args 0x80403009 = 0x69" "mem ex_args 0x8040300A = 0"
  "ld32 (mem ex_args) 0x80301044 = 0x5000" "ld32 (mem ex_args) 0x80402014 = 0x403007" "ld32 (mem ex_args) 0x80401000 = 0x402007"
  by (simp_all add: ex_args_def core_defs ld32_def st32_def)

lemma ex_args_pte:
  assumes "0x5000 \<le> v" and "v < (0x6000 :: addr)"
  shows "user_pte ex_args v = 0x403007"
proof -
  have "unat v div 4096 = 5" using assms by (simp add: word_le_nat_alt word_less_nat_alt)
  then have "drop_bit 12 v = 5" "drop_bit 22 v = 0"
    using assms by (simp_all add: word_unat_eq_iff drop_bit_eq_div unat_div word_le_nat_alt word_less_nat_alt)
  then show ?thesis by (simp add: user_pte_def PDX_def PTX_def ex_args_simps pte_at_def p2v_def KERNBASE_def PTE_P_def PTE_ADDR_def)
qed

lemma ex_args_present: "0x5000 \<le> v \<Longrightarrow> v < 0x6000 \<Longrightarrow> upresent ex_args v"
  by (simp add: upresent_def ex_args_pte PTE_P_def)

lemma ex_args_byte: "0x5000 \<le> v \<Longrightarrow> v < 0x6000 \<Longrightarrow> kbyte ex_args v = mem ex_args (0x80403000 + (v AND 0xFFF))"
  by (simp add: kbyte_def ex_args_pte p2v_def PTE_ADDR_def KERNBASE_def)


theorem argptr_bounds_witness:
  "argptr 0 16 ex_args = Ok (Some 0x5010) ex_args \<and> argptr 0 0x1000 ex_args = Ok None ex_args \<and> argptr 0 (- 0x1000) ex_args = Ok (Some 0x5010) ex_args"
proof -
  have four: "(4 :: nat) = Suc (Suc (Suc (Suc 0)))" by simp
  have "ubytes ex_args 0x5004 4 = [0x10, 0x50, 0, 0]" unfolding four ubytes_simps by (simp add: ex_args_byte ex_args_simps)
  moreover have "uld 0x5004 4 ex_args = Ok (ubytes ex_args 0x5004 4) ex_args"
  proof (rule uld_present)
    fix i :: nat assume "i < 4"
    then have "i = 0 \<or> i = 1 \<or> i = 2 \<or> i = 3" by auto
    then show "upresent ex_args (0x5004 + of_nat i)" by (elim disjE) (simp_all add: ex_args_present)
  qed
  ultimately have "uld 0x5004 4 ex_args = Ok [0x10, 0x50, 0, 0] ex_args" by simp
  then have "argint 0 ex_args = Ok (Some 0x5010) ex_args"
    by (simp add: argint_def curproc_def ex_args_simps tf_get_def fetchint_def rd32_def)
  note b = argptr_bounds [OF ex_args_simps(1) this]
  show ?thesis using b [of 16] b [of "0x1000"] b [of "- 0x1000"] by (simp add: ex_args_simps KERNBASE_def)
qed

end
