(* ===== verification/Sysfile.thy ===== *)
theory Sysfile
  imports Syscall
begin

unbundle bit_operations_syntax

text \<open>
  The file system calls (sysfile.c), the system call dispatcher (syscall.c) and the trap handler
  (trap.c).  Devices are reached through the table that consoleinit sets up.
\<close>

section \<open>File descriptors\<close>

definition argfd :: "uint \<Rightarrow> ('e kfile_scheme, (nat \<times> nat) option) kop" where
  "argfd n =
     bnd (argint n) (\<lambda>r. case r of None \<Rightarrow> ret None | Some fd \<Rightarrow>
     if sint fd < 0 \<or> sint fd \<ge> int NOFILE then ret None
     else
       bnd curproc (\<lambda>c.
       bnd (gets (\<lambda>s. ofile (ptable s ! c) ! unat fd)) (\<lambda>f.
       ret (map_option (\<lambda>f. (unat fd, f)) f))))"

definition fdalloc :: "nat \<Rightarrow> ('e kfile_scheme, int) kop" where
  "fdalloc f =
     bnd curproc (\<lambda>c.
     bnd (gets (\<lambda>s. find_index (\<lambda>g. g = None) (take NOFILE (ofile (ptable s ! c))))) (\<lambda>r.
     case r of
       None \<Rightarrow> ret (- 1)
     | Some fd \<Rightarrow>
         seq (modify (upd_proc c (\<lambda>q. q\<lparr>ofile := (ofile q)[fd := Some f]\<rparr>)))
             (ret (int fd))))"

definition clear_fd :: "nat \<Rightarrow> ('e kfile_scheme, unit) kop" where
  "clear_fd fd = bnd curproc (\<lambda>c. modify (upd_proc c (\<lambda>q. q\<lparr>ofile := (ofile q)[fd := None]\<rparr>)))"

definition sys_dup :: "('e kfile_scheme, int) kop" where
  "sys_dup =
     bnd (argfd 0) (\<lambda>r. case r of None \<Rightarrow> ret (- 1) | Some (_, f) \<Rightarrow>
     bnd (fdalloc f) (\<lambda>fd.
     if fd < 0 then ret (- 1)
     else bnd (filedup f) (\<lambda>_. ret fd)))"

text \<open>The arguments of read and write: the file, the count and the buffer, fetched in this order.\<close>

definition rw_args :: "('e kfile_scheme, (nat \<times> int \<times> addr) option) kop" where
  "rw_args =
     bnd (argfd 0) (\<lambda>r. case r of None \<Rightarrow> ret None | Some (_, f) \<Rightarrow>
     bnd (argint 2) (\<lambda>r. case r of None \<Rightarrow> ret None | Some n \<Rightarrow>
     bnd (argptr 1 (sint n)) (\<lambda>r. case r of None \<Rightarrow> ret None | Some p \<Rightarrow>
     ret (Some (f, sint n, p)))))"

definition sys_read :: "('e kcons_scheme, int) kop" where
  "sys_read =
     bnd rw_args (\<lambda>r. case r of None \<Rightarrow> ret (- 1) | Some (f, n, p) \<Rightarrow>
     bnd (fileread console_devsw f n) (\<lambda>(r, bytes).
     seq (ust p bytes) (ret r)))"

definition sys_write :: "('e kcons_scheme, int) kop" where
  "sys_write =
     bnd rw_args (\<lambda>r. case r of None \<Rightarrow> ret (- 1) | Some (f, n, p) \<Rightarrow>
     bnd (uld p (nat n)) (\<lambda>bytes.
     filewrite console_devsw f bytes n))"

definition sys_close :: "('e kfile_scheme, int) kop" where
  "sys_close =
     bnd (argfd 0) (\<lambda>r. case r of None \<Rightarrow> ret (- 1) | Some (fd, f) \<Rightarrow>
     seq (clear_fd fd)
     (seq (fileclose f) (ret 0)))"

definition STAT_SIZE :: int where "STAT_SIZE = 20"

definition half_bytes :: "ushort \<Rightarrow> uchar list" where
  "half_bytes v = wr16 0 v [0, 0]"

definition put_stat :: "addr \<Rightarrow> stat \<Rightarrow> ('e kmem_scheme, unit) kop" where
  "put_stat a st =
     seq (ust (a + 4) (word_bytes (st_dev st)))
     (seq (ust (a + 8) (word_bytes (st_ino st)))
     (seq (ust a (half_bytes (st_type st)))
     (seq (ust (a + 12) (half_bytes (st_nlink st)))
          (ust (a + 16) (word_bytes (st_size st))))))"

definition sys_fstat :: "('e kfile_scheme, int) kop" where
  "sys_fstat =
     bnd (argfd 0) (\<lambda>r. case r of None \<Rightarrow> ret (- 1) | Some (_, f) \<Rightarrow>
     bnd (argptr 1 STAT_SIZE) (\<lambda>r. case r of None \<Rightarrow> ret (- 1) | Some a \<Rightarrow>
     bnd (filestat f) (\<lambda>r. case r of None \<Rightarrow> ret (- 1) | Some st \<Rightarrow>
     seq (put_stat a st) (ret 0))))"

section \<open>Links and directories\<close>

definition upd_nlink :: "nat \<Rightarrow> (ushort \<Rightarrow> ushort) \<Rightarrow> ('e kfs_scheme, unit) kop" where
  "upd_nlink ip f = seq (modify (upd_inode ip (\<lambda>i. i\<lparr>nlink := f (nlink i)\<rparr>))) (iupdate ip)"

definition link_bad :: "nat \<Rightarrow> ('e kcons_scheme, int) kop" where
  "link_bad ip =
     seq (ilock ip)
     (seq (upd_nlink ip (\<lambda>n. n - 1))
     (seq (iunlockput ip)
     (seq commit_trans (ret (- 1)))))"

definition sys_link :: "('e kcons_scheme, int) kop" where
  "sys_link =
     bnd (argstr 0) (\<lambda>r. case r of None \<Rightarrow> ret (- 1) | Some old \<Rightarrow>
     bnd (argstr 1) (\<lambda>r. case r of None \<Rightarrow> ret (- 1) | Some new \<Rightarrow>
     bnd (namei console_devsw old) (\<lambda>r. case r of None \<Rightarrow> ret (- 1) | Some ip \<Rightarrow>
     seq begin_trans
     (seq (ilock ip)
     (bnd (gets (\<lambda>s. itype (inodes s ip))) (\<lambda>ty.
      if ty = T_DIR then seq (iunlockput ip) (seq commit_trans (ret (- 1)))
      else
        seq (upd_nlink ip (\<lambda>n. n + 1))
        (seq (iunlock ip)
        (bnd (nameiparent console_devsw new) (\<lambda>r. case r of None \<Rightarrow> link_bad ip | Some (dp, name) \<Rightarrow>
         seq (ilock dp)
         (bnd (gets (\<lambda>s. (idev (inodes s dp), idev (inodes s ip), inum (inodes s ip)))) (\<lambda>(dd, di, n).
          bnd (if dd \<noteq> di then ret (- 1) else dirlink console_devsw dp name n) (\<lambda>e.
          if e < 0 then seq (iunlockput dp) (link_bad ip)
          else
            seq (iunlockput dp)
            (seq (iput ip)
            (seq commit_trans (ret 0)))))))))))))))"

definition isdirempty :: "nat \<Rightarrow> ('e kcons_scheme, bool) kop" where
  "isdirempty dp =
     bnd (gets (\<lambda>s. isize (inodes s dp))) (\<lambda>n.
     bnd (loopE (drop 2 (dir_offsets n)) (\<lambda>off.
            bnd (readi console_devsw dp (of_nat off) (of_nat DIRENT_SIZE)) (\<lambda>(r, de).
            if r \<noteq> int DIRENT_SIZE then panic ''isdirempty: readi''
            else ret (if de_inum de \<noteq> 0 then Some False else None)))) (\<lambda>r.
     case r of Some b \<Rightarrow> ret b | None \<Rightarrow> ret True))"

definition unlink_bad :: "nat \<Rightarrow> ('e kcons_scheme, int) kop" where
  "unlink_bad dp = seq (iunlockput dp) (seq commit_trans (ret (- 1)))"

definition dot :: "uchar list" where "dot = [0x2e]"
definition dotdot :: "uchar list" where "dotdot = [0x2e, 0x2e]"

definition sys_unlink :: "('e kcons_scheme, int) kop" where
  "sys_unlink =
     bnd (argstr 0) (\<lambda>r. case r of None \<Rightarrow> ret (- 1) | Some path \<Rightarrow>
     bnd (nameiparent console_devsw path) (\<lambda>r. case r of None \<Rightarrow> ret (- 1) | Some (dp, name) \<Rightarrow>
     seq begin_trans
     (seq (ilock dp)
     (if namecmp name dot = 0 \<or> namecmp name dotdot = 0 then unlink_bad dp
      else
        bnd (dirlookup console_devsw dp name) (\<lambda>r. case r of None \<Rightarrow> unlink_bad dp | Some (ip, off) \<Rightarrow>
        seq (ilock ip)
        (bnd (gets (\<lambda>s. (nlink (inodes s ip), itype (inodes s ip)))) (\<lambda>(nl, ty).
         if sint nl < 1 then panic ''unlink: nlink < 1''
         else
           bnd (if ty = T_DIR then isdirempty ip else ret True) (\<lambda>ok.
           if \<not> ok then seq (iunlockput ip) (unlink_bad dp)
           else
             bnd (writei console_devsw dp (replicate DIRENT_SIZE 0) off) (\<lambda>r.
             if r \<noteq> int DIRENT_SIZE then panic ''unlink: writei''
             else
               seq (whenM (ty = T_DIR) (upd_nlink dp (\<lambda>n. n - 1)))
               (seq (iunlockput dp)
               (seq (upd_nlink ip (\<lambda>n. n - 1))
               (seq (iunlockput ip)
               (seq commit_trans (ret 0))))))))))))))"

definition create :: "uchar list \<Rightarrow> ushort \<Rightarrow> ushort \<Rightarrow> ushort \<Rightarrow> ('e kcons_scheme, nat option) kop" where
  "create path ty maj min_arg =
     bnd (nameiparent console_devsw path) (\<lambda>r. case r of None \<Rightarrow> ret None | Some (dp, name) \<Rightarrow>
     seq (ilock dp)
     (bnd (dirlookup console_devsw dp name) (\<lambda>r. case r of
        Some (ip, _) \<Rightarrow>
          seq (iunlockput dp)
          (seq (ilock ip)
          (bnd (gets (\<lambda>s. itype (inodes s ip))) (\<lambda>t.
           if ty = T_FILE \<and> t = T_FILE then ret (Some ip)
           else seq (iunlockput ip) (ret None))))
      | None \<Rightarrow>
          bnd (gets (\<lambda>s. idev (inodes s dp))) (\<lambda>d.
          bnd (ialloc d ty) (\<lambda>ip.
          seq (ilock ip)
          (seq (modify (upd_inode ip (\<lambda>i. i\<lparr>major := maj, minor := min_arg, nlink := 1\<rparr>)))
          (seq (iupdate ip)
          (bnd (gets (\<lambda>s. (inum (inodes s ip), inum (inodes s dp)))) (\<lambda>(n, dn).
           seq (whenM (ty = T_DIR)
                  (seq (upd_nlink dp (\<lambda>n. n + 1))
                  (bnd (dirlink console_devsw ip dot n) (\<lambda>e1.
                   bnd (if e1 < 0 then ret e1 else dirlink console_devsw ip dotdot dn) (\<lambda>e2.
                   if e2 < 0 then panic ''create dots'' else ret ())))))
           (bnd (dirlink console_devsw dp name n) (\<lambda>e.
            if e < 0 then panic ''create: dirlink''
            else seq (iunlockput dp) (ret (Some ip)))))))))))))"

section \<open>Opening files\<close>

definition O_RDONLY :: uint where "O_RDONLY = 0"
definition O_WRONLY :: uint where "O_WRONLY = 1"
definition O_RDWR :: uint where "O_RDWR = 2"
definition O_CREATE :: uint where "O_CREATE = 0x200"

text \<open>The inode that \<open>sys_open\<close> opens, locked, or \<open>None\<close> when it returns -1.\<close>

definition open_inode :: "uchar list \<Rightarrow> uint \<Rightarrow> ('e kcons_scheme, nat option) kop" where
  "open_inode path omode =
     (if omode AND O_CREATE \<noteq> 0 then
        seq begin_trans
        (bnd (create path T_FILE 0 0) (\<lambda>r.
         seq commit_trans (ret r)))
      else
        bnd (namei console_devsw path) (\<lambda>r. case r of None \<Rightarrow> ret None | Some ip \<Rightarrow>
        seq (ilock ip)
        (bnd (gets (\<lambda>s. itype (inodes s ip))) (\<lambda>ty.
         if ty = T_DIR \<and> omode \<noteq> O_RDONLY then seq (iunlockput ip) (ret None)
         else ret (Some ip)))))"

definition sys_open :: "('e kcons_scheme, int) kop" where
  "sys_open =
     bnd (argstr 0) (\<lambda>r. case r of None \<Rightarrow> ret (- 1) | Some path \<Rightarrow>
     bnd (argint 1) (\<lambda>r. case r of None \<Rightarrow> ret (- 1) | Some omode \<Rightarrow>
     bnd (open_inode path omode) (\<lambda>r. case r of None \<Rightarrow> ret (- 1) | Some ip \<Rightarrow>
     bnd filealloc (\<lambda>r. case r of
       None \<Rightarrow> seq (iunlockput ip) (ret (- 1))
     | Some f \<Rightarrow>
         bnd (fdalloc f) (\<lambda>fd.
         if fd < 0 then seq (fileclose f) (seq (iunlockput ip) (ret (- 1)))
         else
           seq (iunlock ip)
           (seq (modify (upd_file f (\<lambda>g. g\<lparr>ftype := FD_INODE, fip := ip, foff := 0,
                   readable := (omode AND O_WRONLY = 0),
                   writable := (omode AND O_WRONLY \<noteq> 0 \<or> omode AND O_RDWR \<noteq> 0)\<rparr>)))
                (ret fd)))))))"

definition sys_mkdir :: "('e kcons_scheme, int) kop" where
  "sys_mkdir =
     seq begin_trans
     (bnd (argstr 0) (\<lambda>r.
      bnd (case r of None \<Rightarrow> ret None | Some path \<Rightarrow> create path T_DIR 0 0) (\<lambda>r. case r of
        None \<Rightarrow> seq commit_trans (ret (- 1))
      | Some ip \<Rightarrow> seq (iunlockput ip) (seq commit_trans (ret 0)))))"

definition sys_mknod :: "('e kcons_scheme, int) kop" where
  "sys_mknod =
     seq begin_trans
     (bnd (argstr 0) (\<lambda>p.
      bnd (case p of None \<Rightarrow> ret None | Some _ \<Rightarrow> argint 1) (\<lambda>maj.
      bnd (case maj of None \<Rightarrow> ret None | Some _ \<Rightarrow> argint 2) (\<lambda>mn.
      bnd (case (p, maj, mn) of
             (Some path, Some a, Some b) \<Rightarrow> create path T_DEV (ucast a) (ucast b)
           | _ \<Rightarrow> ret None) (\<lambda>r. case r of
        None \<Rightarrow> seq commit_trans (ret (- 1))
      | Some ip \<Rightarrow> seq (iunlockput ip) (seq commit_trans (ret 0)))))))"

definition sys_chdir :: "('e kcons_scheme, int) kop" where
  "sys_chdir =
     bnd (argstr 0) (\<lambda>r. case r of None \<Rightarrow> ret (- 1) | Some path \<Rightarrow>
     bnd (namei console_devsw path) (\<lambda>r. case r of None \<Rightarrow> ret (- 1) | Some ip \<Rightarrow>
     seq (ilock ip)
     (bnd (gets (\<lambda>s. itype (inodes s ip))) (\<lambda>ty.
      if ty \<noteq> T_DIR then seq (iunlockput ip) (ret (- 1))
      else
        seq (iunlock ip)
        (bnd curproc (\<lambda>c.
         seq (drop_cwd c)
         (seq (modify (upd_proc c (\<lambda>q. q\<lparr>cwd := Some ip\<rparr>))) (ret 0))))))))"

fun exec_argv :: "addr \<Rightarrow> nat \<Rightarrow> nat \<Rightarrow> ('e ksched_scheme, uchar list list option) kop" where
  "exec_argv uargv 0 i = ret None"
| "exec_argv uargv (Suc n) i =
     bnd (fetchint (uargv + 4 * of_nat i)) (\<lambda>r. case r of None \<Rightarrow> ret None | Some uarg \<Rightarrow>
     if uarg = 0 then ret (Some [])
     else
       bnd (fetchstr uarg) (\<lambda>r. case r of None \<Rightarrow> ret None | Some a \<Rightarrow>
       bnd (exec_argv uargv n (Suc i)) (\<lambda>r.
       ret (map_option (\<lambda>as. a # as) r))))"

definition sys_exec :: "('e kcons_scheme, int) kop" where
  "sys_exec =
     bnd (argstr 0) (\<lambda>r. case r of None \<Rightarrow> ret (- 1) | Some path \<Rightarrow>
     bnd (argint 1) (\<lambda>r. case r of None \<Rightarrow> ret (- 1) | Some uargv \<Rightarrow>
     bnd (exec_argv uargv MAXARG 0) (\<lambda>r. case r of None \<Rightarrow> ret (- 1) | Some argv \<Rightarrow>
     exec console_devsw path argv)))"

definition sys_pipe :: "('e kfile_scheme, int) kop" where
  "sys_pipe =
     bnd (argptr 0 8) (\<lambda>r. case r of None \<Rightarrow> ret (- 1) | Some a \<Rightarrow>
     bnd pipealloc (\<lambda>r. case r of None \<Rightarrow> ret (- 1) | Some (rf, wfd) \<Rightarrow>
     bnd (fdalloc rf) (\<lambda>fd0.
     bnd (if fd0 < 0 then ret (- 1) else fdalloc wfd) (\<lambda>fd1.
     if fd0 < 0 \<or> fd1 < 0 then
       seq (whenM (fd0 \<ge> 0) (clear_fd (nat fd0)))
       (seq (fileclose rf)
       (seq (fileclose wfd)
            (ret (- 1))))
     else
       seq (ust a (word_bytes (of_int fd0)))
       (seq (ust (a + 4) (word_bytes (of_int fd1)))
            (ret 0))))))"

end
