(* ===== verification/Trap.thy ===== *)
theory Trap
  imports Sysfile
begin

unbundle bit_operations_syntax

text \<open>
  The system call table and dispatcher (syscall.c, syscall.h) and the trap handler with the interrupt
  descriptor table (trap.c, traps.h, the gate descriptors of mmu.h).
\<close>

section \<open>The dispatcher\<close>

definition SYS_thread_yield :: int where "SYS_thread_yield = 26"
definition SYS_thread_yield3 :: int where "SYS_thread_yield3 = 26"

text \<open>
  The initialisers of \<open>syscalls\<close> in the order of the source; for an index that is initialised twice C
  keeps the last one.
\<close>

definition syscall_inits :: "(int \<times> ('e ksys_scheme, int) kop) list" where
  "syscall_inits =
    [(1, sys_fork), (2, sys_exit), (3, sys_wait), (4, sys_pipe), (5, sys_read), (6, sys_kill),
     (7, sys_exec), (8, sys_fstat), (9, sys_chdir), (10, sys_dup), (11, sys_getpid), (12, sys_sbrk),
     (13, sys_sleep), (14, sys_uptime), (15, sys_open), (16, sys_write), (17, sys_mknod),
     (18, sys_unlink), (19, sys_link), (20, sys_mkdir), (21, sys_close), (22, sys_clone),
     (23, sys_texit), (24, sys_tsleep), (25, sys_twakeup),
     (SYS_thread_yield, sys_thread_yield), (SYS_thread_yield3, sys_thread_yield3)]"

definition syscalls :: "int \<Rightarrow> ('e ksys_scheme, int) kop option" where
  "syscalls n = map_of (rev syscall_inits) n"

definition syscall :: "('e ksys_scheme, unit) kop" where
  "syscall =
     bnd curproc (\<lambda>c.
     bnd (gets (\<lambda>s. sint (tf_get TF_eax c s))) (\<lambda>num.
     case (if num > 0 then syscalls num else None) of
       Some f \<Rightarrow> bnd f (\<lambda>r. tf_set TF_eax (of_int r) c)
     | None \<Rightarrow> tf_set TF_eax (- 1) c))"

section \<open>Traps\<close>

definition T_SYSCALL :: uint where "T_SYSCALL = 64"
definition T_IRQ0 :: uint where "T_IRQ0 = 32"
definition IRQ_TIMER :: uint where "IRQ_TIMER = 0"
definition IRQ_KBD :: uint where "IRQ_KBD = 1"
definition IRQ_COM1 :: uint where "IRQ_COM1 = 4"
definition IRQ_IDE :: uint where "IRQ_IDE = 14"
definition IRQ_SPURIOUS :: uint where "IRQ_SPURIOUS = 31"

record gatedesc =
  g_off :: uint
  g_cs :: uint
  g_trap :: bool
  g_dpl :: uint

definition SETGATE :: "bool \<Rightarrow> uint \<Rightarrow> uint \<Rightarrow> uint \<Rightarrow> gatedesc" where
  "SETGATE istrap sel off d = \<lparr>g_off = off, g_cs = sel, g_trap = istrap, g_dpl = d\<rparr>"

text \<open>The descriptor table that \<open>tvinit\<close> builds from the entry points \<open>vectors\<close>.\<close>

definition idt :: "(nat \<Rightarrow> uint) \<Rightarrow> nat \<Rightarrow> gatedesc" where
  "idt vectors =
     (fold (\<lambda>i g. g(i := SETGATE False (push_bit 3 SEG_KCODE) (vectors i) 0)) [0..<256] (\<lambda>_. SETGATE False 0 0 0))
       (unat T_SYSCALL := SETGATE True (push_bit 3 SEG_KCODE) (vectors (unat T_SYSCALL)) DPL_USER)"

definition tvinit :: "('e ksys_scheme, unit) kop" where
  "tvinit = initlock TicksLock ''time''"

text \<open>
  What the devices deliver during a trap: the keyboard's status and data bytes, the characters of
  the serial port.  The memory disk has no interrupts, so \<open>ideintr\<close> does nothing, and the interrupt
  controller is not part of the state.
\<close>

record trap_in =
  kb_in :: "(uint \<times> uint) list"
  uart_in :: "int list"

definition timer_tick :: "('e ksys_scheme, unit) kop" where
  "timer_tick =
     bnd (gets (\<lambda>s. cpuid (mycpu s))) (\<lambda>i.
     whenM (i = 0)
       (seq (acquire TicksLock)
       (seq (modify (\<lambda>s. s\<lparr>ticks := ticks s + 1\<rparr>))
       (seq (wakeup ChTicks)
            (release TicksLock)))))"

definition exit_if_killed :: "uint \<Rightarrow> ('e ksys_scheme, unit) kop" where
  "exit_if_killed cs =
     bnd (gets (\<lambda>s. cproc (mycpu s))) (\<lambda>c. case c of None \<Rightarrow> ret () | Some i \<Rightarrow>
     bnd (gets (\<lambda>s. killed (ptable s ! i))) (\<lambda>k.
     whenM (k \<and> cs AND 3 = DPL_USER) exit))"

text \<open>\<open>trap\<close> on the trap frame at address \<open>a\<close>.\<close>

definition trap :: "trap_in \<Rightarrow> addr \<Rightarrow> ('e ksys_scheme, unit) kop" where
  "trap inp a =
     bnd (gets (\<lambda>s. (ld32 (mem s) (a + tf_off TF_trapno), ld32 (mem s) (a + tf_off TF_cs) AND 0xffff))) (\<lambda>(no, cs).
     if no = T_SYSCALL then
       bnd cur_killed (\<lambda>k.
       seq (whenM k exit)
       (bnd curproc (\<lambda>c.
        seq (modify (upd_proc c (\<lambda>q. q\<lparr>tf := a\<rparr>)))
        (seq syscall
        (bnd cur_killed (\<lambda>k.
         whenM k exit))))))
     else
       seq (if no = T_IRQ0 + IRQ_TIMER then timer_tick
            else if no = T_IRQ0 + IRQ_IDE \<or> no = T_IRQ0 + IRQ_IDE + 1 then ret ()
            else if no = T_IRQ0 + IRQ_KBD then
              bnd (gets kbd_shift) (\<lambda>sh.
              bnd (kbdintr sh (kb_in inp)) (\<lambda>sh'.
              modify (\<lambda>s. s\<lparr>kbd_shift := sh'\<rparr>)))
            else if no = T_IRQ0 + IRQ_COM1 then consoleintr (uart_in inp)
            else if no = T_IRQ0 + 7 \<or> no = T_IRQ0 + IRQ_SPURIOUS then ret ()
            else
              bnd (gets (\<lambda>s. cproc (mycpu s))) (\<lambda>c. case c of
                None \<Rightarrow> panic ''trap''
              | Some i \<Rightarrow>
                  if cs AND 3 = 0 then panic ''trap''
                  else modify (upd_proc i (\<lambda>q. q\<lparr>killed := True\<rparr>))))
       (seq (exit_if_killed cs)
       (seq (bnd (gets (\<lambda>s. cproc (mycpu s))) (\<lambda>c. case c of None \<Rightarrow> ret () | Some i \<Rightarrow>
             bnd (gets (\<lambda>s. state (ptable s ! i))) (\<lambda>st.
             whenM (st = RUNNING \<and> no = T_IRQ0 + IRQ_TIMER) yield)))
            (exit_if_killed cs))))"

end
