(* ===== verification/Interrupts.thy ===== *)
theory Interrupts
  imports Trap Pipes
begin

unbundle bit_operations_syntax

text \<open>
  Which gates user programs can use, which system calls the dispatcher knows, and what a timer interrupt does to the process it interrupts.
\<close>

section \<open>Gates\<close>

lemma fold_gates: "fold (\<lambda>i g. g(i := f i)) [0..<n] g0 j = (if j < n then f j else g0 j)"
  by (induction n) (auto simp: less_Suc_eq)



section \<open>The dispatcher\<close>


section \<open>The timer\<close>

lemma ksys_lock_simps [simp]:
  "ticks (taken lk s) = ticks s" "ticks (settled s) = ticks s" "ticks (upd_proc i f s) = ticks s"
  "ticks_update g (taken lk s) = taken lk (ticks_update g s)" "ticks_update g (settled s) = settled (ticks_update g s)"
  "ticks (s\<lparr>ptable := ps\<rparr>) = ticks s" "ptable (ticks_update g s) = ptable s" "mycpu (ticks_update g s) = mycpu s"
  "idle lk (ticks_update g s) = idle lk s" "cli_wf (ticks_update g s) = cli_wf s"
  by (simp_all add: taken_def settled_def upd_proc_def core_defs idle_def cli_wf_def)

lemma timer_tick_eq:
  assumes "idle TicksLock s" and "idle PtableLock s" and "cli_wf s" and "cpuid (mycpu s) = 0"
  shows "timer_tick s = Ok () (settled (s\<lparr>ticks := ticks s + 1, ptable := map (wake (Some ChTicks)) (ptable s)\<rparr>))"
  using assms by (simp add: timer_tick_def kop_simps wakeup_eq)

lemma timer_tick_other: "cpuid (mycpu s) \<noteq> 0 \<Longrightarrow> timer_tick s = Ok () s"
  by (simp add: timer_tick_def whenM_def)

text \<open>
  C14 (preemption). A timer interrupt takes the processor from the running process: it becomes runnable and control goes to the
  scheduler with the lock of the process table held.  On the first processor the interrupt also advances the clock by one, modulo
  \<open>2 ^ 32\<close>, and makes exactly the processes that sleep on the clock runnable.
\<close>

theorem timer_preempts:
  assumes no: "ld32 (mem s) (a + tf_off TF_trapno) = T_IRQ0 + IRQ_TIMER"
    and cur: "cproc (mycpu s) = Some i" "i < length (ptable s)" "state (ptable s ! i) = RUNNING" "\<not> killed (ptable s ! i)"
    and lk: "idle TicksLock s" "idle PtableLock s" "cli_wf s" "ncli (mycpu s) = 0"
  shows "\<exists>u. trap inp a s = Stop (Swtch u) \<and> holding PtableLock u \<and> state (ptable u ! i) = RUNNABLE
    \<and> (if cpuid (mycpu s) = 0
       then ticks u = ticks s + 1 \<and> (\<forall>j < length (ptable s). j \<noteq> i \<longrightarrow> ptable u ! j = wake (Some ChTicks) (ptable s ! j))
       else ticks u = ticks s \<and> (\<forall>j < length (ptable s). j \<noteq> i \<longrightarrow> ptable u ! j = ptable s ! j))"
proof -
  let ?s = "if cpuid (mycpu s) = 0 then settled (s\<lparr>ticks := ticks s + 1, ptable := map (wake (Some ChTicks)) (ptable s)\<rparr>) else s"
  let ?u = "taken PtableLock (upd_proc i (\<lambda>p. p\<lparr>state := RUNNABLE\<rparr>) ?s)"
  have tick: "timer_tick s = Ok () ?s" using timer_tick_eq timer_tick_other lk by auto
  have wi: "wake (Some ChTicks) (ptable s ! i) = ptable s ! i" using cur(3) by (simp add: wake_def)
  have c: "cproc (mycpu ?s) = Some i" "ptable ?s ! i = ptable s ! i" "i < length (ptable ?s)" using cur(1,2) wi by auto
  have nk: "exit_if_killed k ?s = Ok () ?s" for k using c cur(4) by (simp add: exit_if_killed_def whenM_def)
  have y: "yield ?s = Stop (Swtch ?u)" using lk c by (intro yield_eq) auto
  have "no \<noteq> T_SYSCALL" if "no = T_IRQ0 + IRQ_TIMER" for no using that by (simp add: T_IRQ0_def IRQ_TIMER_def T_SYSCALL_def)
  then have "trap inp a s = Stop (Swtch ?u)"
    using no tick nk y c(1,2) cur(3) by (simp add: trap_def seq_apply bnd_apply whenM_def)
  moreover have "holding PtableLock ?u" using lk(2) by simp
  moreover have "state (ptable ?u ! i) = RUNNABLE" using cur(2) by (auto simp: upd_proc_def)
  moreover have "if cpuid (mycpu s) = 0
       then ticks ?u = ticks s + 1 \<and> (\<forall>j < length (ptable s). j \<noteq> i \<longrightarrow> ptable ?u ! j = wake (Some ChTicks) (ptable s ! j))
       else ticks ?u = ticks s \<and> (\<forall>j < length (ptable s). j \<noteq> i \<longrightarrow> ptable ?u ! j = ptable s ! j)"
    by (auto simp: upd_proc_def)
  ultimately show ?thesis by blast
qed

text \<open>A machine on which process 0 runs; the trap frame at \<open>0x80400000\<close> is that of a timer interrupt.\<close>

definition ex_sys :: ksys where
  "ex_sys = (ex_file_ext (kproc_ext True 0 0 0x80110000 0 0 0 0
      (kcons_ext False False False [] [] 0 [] 0 0 0 (ksys_ext 7 0 ()))))
     \<lparr>mem := st32 (0x80400000 + tf_off TF_trapno) 32 (\<lambda>_. 0),
      ptable := [ex_proc\<lparr>state := RUNNING\<rparr>, ex_proc\<lparr>state := SLEEPING, chan := Some ChTicks\<rparr>]\<rparr>"

lemma ex_sys_simps:
  "idle lk ex_sys" "cli_wf ex_sys" "ncli (mycpu ex_sys) = 0" "cproc (mycpu ex_sys) = Some 0" "cpuid (mycpu ex_sys) = 0" "ticks ex_sys = 7"
  "ptable ex_sys = [ex_proc\<lparr>state := RUNNING\<rparr>, ex_proc\<lparr>state := SLEEPING, chan := Some ChTicks\<rparr>]"
  "mem ex_sys = st32 (0x80400000 + tf_off TF_trapno) 32 (\<lambda>_. 0)"
  by (simp_all add: ex_sys_def ex_file_ext_def ex_bio_ext_def set_mycpu_def idle_def cli_wf_def mycpu_def quiet_core_def)

theorem timer_preempts_witness:
  "\<exists>u. trap \<lparr>kb_in = [], uart_in = []\<rparr> 0x80400000 ex_sys = Stop (Swtch u) \<and> ticks u = 8 \<and> state (ptable u ! 0) = RUNNABLE \<and> state (ptable u ! 1) = RUNNABLE"
proof -
  from timer_preempts [of ex_sys "0x80400000" 0 "\<lparr>kb_in = [], uart_in = []\<rparr>"] obtain u where
    "trap \<lparr>kb_in = [], uart_in = []\<rparr> 0x80400000 ex_sys = Stop (Swtch u)" "state (ptable u ! 0) = RUNNABLE" "ticks u = 8"
    "ptable u ! 1 = wake (Some ChTicks) (ptable ex_sys ! 1)"
    by (auto simp: ex_sys_simps T_IRQ0_def IRQ_TIMER_def ex_proc_def unused_proc_def)
  then show ?thesis by (auto simp: ex_sys_simps wake_def)
qed


end
