(* ===== verification/Ulib.thy ===== *)
theory Ulib
  imports Sysfile
begin

text \<open>
  The user library: ulib.c and printf.c.  A user program is an operation on the state of the process, its memory \<open>umem\<close> and
  whatever lies behind the system calls.  The calls are an argument of the definitions: a record of operations.  A
  buffer is passed to \<open>write\<close> by its content, and \<open>read\<close> returns the bytes it stores.
\<close>

record umach =
  umem :: memory

record 's usys =
  u_read :: "int \<Rightarrow> nat \<Rightarrow> ('s, int \<times> uchar list) kop"
  u_write :: "int \<Rightarrow> uchar list \<Rightarrow> ('s, int) kop"
  u_open :: "uchar list \<Rightarrow> uint \<Rightarrow> ('s, int) kop"
  u_close :: "int \<Rightarrow> ('s, int) kop"
  u_fstat :: "int \<Rightarrow> ('s, int \<times> stat) kop"
  u_exit :: "('s, unit) kop"

definition ustore :: "addr \<Rightarrow> uchar \<Rightarrow> ('e umach_scheme, unit) kop" where
  "ustore a b = modify (\<lambda>s. s\<lparr>umem := (umem s)(a := b)\<rparr>)"

section \<open>ulib.c\<close>

partial_function (option) ustrcpy :: "addr \<Rightarrow> addr \<Rightarrow> memory \<Rightarrow> memory option" where
  "ustrcpy s t m =
     (let c = m t; m' = m(s := c) in if c \<noteq> 0 then ustrcpy (s + 1) (t + 1) m' else Some m')"

partial_function (option) ustrcmp :: "memory \<Rightarrow> addr \<Rightarrow> addr \<Rightarrow> int option" where
  "ustrcmp m p q =
     (if m p \<noteq> 0 \<and> m p = m q then ustrcmp m (p + 1) (q + 1) else Some (uint (m p) - uint (m q)))"

partial_function (option) ustrlen_from :: "memory \<Rightarrow> addr \<Rightarrow> nat \<Rightarrow> nat option" where
  "ustrlen_from m s n = (if m (s + of_nat n) \<noteq> 0 then ustrlen_from m s (Suc n) else Some n)"

definition ustrlen :: "memory \<Rightarrow> addr \<Rightarrow> nat option" where
  "ustrlen m s = ustrlen_from m s 0"

definition umemset :: "addr \<Rightarrow> uint \<Rightarrow> uint \<Rightarrow> memory \<Rightarrow> memory" where
  "umemset dst c n m = stosb dst c (unat n) m"

partial_function (option) strchr :: "memory \<Rightarrow> addr \<Rightarrow> uchar \<Rightarrow> addr option" where
  "strchr m s c = (if m s = 0 then Some 0 else if m s = c then Some s else strchr m (s + 1) c)"

fun gets_loop :: "'e umach_scheme usys \<Rightarrow> addr \<Rightarrow> nat \<Rightarrow> nat \<Rightarrow> ('e umach_scheme, nat) kop" where
  "gets_loop sys buf 0 i = ret i"
| "gets_loop sys buf (Suc k) i =
     bnd (u_read sys 0 1) (\<lambda>(cc, bs).
     if cc < 1 then ret i
     else
       seq (ustore (buf + of_nat i) (hd bs))
       (if hd bs = 0x0a \<or> hd bs = 0x0d then ret (Suc i) else gets_loop sys buf k (Suc i)))"

definition ugets :: "'e umach_scheme usys \<Rightarrow> addr \<Rightarrow> int \<Rightarrow> ('e umach_scheme, addr) kop" where
  "ugets sys buf mx =
     bnd (gets_loop sys buf (nat (mx - 1)) 0) (\<lambda>i.
     seq (ustore (buf + of_nat i) 0) (ret buf))"

definition ustat :: "'s usys \<Rightarrow> uchar list \<Rightarrow> ('s, int \<times> stat option) kop" where
  "ustat sys n =
     bnd (u_open sys n O_RDONLY) (\<lambda>fd.
     if fd < 0 then ret (- 1, None)
     else
       bnd (u_fstat sys fd) (\<lambda>(r, st).
       seq (u_close sys fd) (ret (r, Some st))))"

partial_function (option) atoi_loop :: "memory \<Rightarrow> addr \<Rightarrow> uint \<Rightarrow> uint option" where
  "atoi_loop m s n =
     (if 0x30 \<le> m s \<and> m s \<le> 0x39 then atoi_loop m (s + 1) (n * 10 + ucast (m s) - 0x30) else Some n)"

definition atoi :: "memory \<Rightarrow> addr \<Rightarrow> uint option" where
  "atoi m s = atoi_loop m s 0"

definition umemmove :: "addr \<Rightarrow> addr \<Rightarrow> int \<Rightarrow> memory \<Rightarrow> memory" where
  "umemmove dst src n m = copy_up dst src (nat n) m"

section \<open>printf.c\<close>

definition uputc :: "'s usys \<Rightarrow> int \<Rightarrow> uchar \<Rightarrow> ('s, unit) kop" where
  "uputc sys fd c = seq (u_write sys fd [c]) (ret ())"

definition udigits :: "uchar list" where
  "udigits = [0x30, 0x31, 0x32, 0x33, 0x34, 0x35, 0x36, 0x37, 0x38, 0x39, 0x41, 0x42, 0x43, 0x44, 0x45, 0x46]"

definition uprintint :: "'s usys \<Rightarrow> int \<Rightarrow> int \<Rightarrow> nat \<Rightarrow> bool \<Rightarrow> ('s, unit) kop" where
  "uprintint sys fd xx base sgnd = forM (printint_chars udigits xx base sgnd) (uputc sys fd)"

text \<open>
  \<open>printf\<close>: the format without its terminating zero, \<open>pct\<close> is \<open>state == '%'\<close>, and the words above the format on
  the stack are the arguments.  A string argument is read from the memory of the process.
\<close>

partial_function (option) cstring :: "memory \<Rightarrow> addr \<Rightarrow> uchar list option" where
  "cstring m s = (if m s = 0 then Some [] else Option.bind (cstring m (s + 1)) (\<lambda>bs. Some (m s # bs)))"

fun printf_loop :: "'e umach_scheme usys \<Rightarrow> int \<Rightarrow> bool \<Rightarrow> uchar list \<Rightarrow> uint list \<Rightarrow> ('e umach_scheme, unit) kop" where
  "printf_loop sys fd pct [] as = ret ()"
| "printf_loop sys fd False (c # fmt) as =
     (if c = 0x25 then printf_loop sys fd True fmt as
      else seq (uputc sys fd c) (printf_loop sys fd False fmt as))"
| "printf_loop sys fd True (c # fmt) as =
     (if c = 0x64 then
        (case as of a # as \<Rightarrow> seq (uprintint sys fd (sint a) 10 True) (printf_loop sys fd False fmt as) | _ \<Rightarrow> fault ''printf'')
      else if c = 0x78 \<or> c = 0x70 then
        (case as of a # as \<Rightarrow> seq (uprintint sys fd (sint a) 16 False) (printf_loop sys fd False fmt as) | _ \<Rightarrow> fault ''printf'')
      else if c = 0x73 then
        (case as of
           a # as \<Rightarrow>
             bnd (gets (\<lambda>s. if a = 0 then Some null_chars else cstring (umem s) a)) (\<lambda>str.
             case str of
               None \<Rightarrow> spin
             | Some bs \<Rightarrow> seq (forM bs (uputc sys fd)) (printf_loop sys fd False fmt as))
         | _ \<Rightarrow> fault ''printf'')
      else if c = 0x63 then
        (case as of a # as \<Rightarrow> seq (uputc sys fd (ucast a)) (printf_loop sys fd False fmt as) | _ \<Rightarrow> fault ''printf'')
      else if c = 0x25 then seq (uputc sys fd c) (printf_loop sys fd False fmt as)
      else seq (uputc sys fd 0x25) (seq (uputc sys fd c) (printf_loop sys fd False fmt as)))"

definition printf :: "'e umach_scheme usys \<Rightarrow> int \<Rightarrow> uchar list \<Rightarrow> uint list \<Rightarrow> ('e umach_scheme, unit) kop" where
  "printf sys fd fmt as = printf_loop sys fd False fmt as"

section \<open>Strings in memory\<close>

definition ucstr :: "memory \<Rightarrow> addr \<Rightarrow> uchar list \<Rightarrow> bool" where
  "ucstr m a xs \<longleftrightarrow> (\<forall>i < length xs. m (a + of_nat i) = xs ! i \<and> xs ! i \<noteq> 0) \<and> m (a + of_nat (length xs)) = 0"

lemma ucstr_Nil [simp]: "ucstr m a [] \<longleftrightarrow> m a = 0"
  by (simp add: ucstr_def)

lemma ucstr_Cons [simp]: "ucstr m a (x # xs) \<longleftrightarrow> m a = x \<and> x \<noteq> 0 \<and> ucstr m (a + 1) xs"
  by (auto simp: ucstr_def All_less_Suc2 add.assoc)

lemma ustrlen_cstr: "ucstr m a xs \<Longrightarrow> ustrlen m a = Some (length xs)"
proof -
  assume c: "ucstr m a xs"
  have "ustrlen_from m a i = Some (length xs)" if "i \<le> length xs" for i
    using that
  proof (induction i rule: inc_induct)
    case base
    then show ?case using c by (simp add: ustrlen_from.simps [of m a "length xs"] ucstr_def)
  next
    case (step i)
    then show ?case using c by (simp add: ustrlen_from.simps [of m a i] ucstr_def)
  qed
  then show ?thesis by (simp add: ustrlen_def)
qed

lemma cstring_cstr: "ucstr m a xs \<Longrightarrow> cstring m a = Some xs"
  by (induction xs arbitrary: a) (simp_all add: cstring.simps [of m])

lemma ustrcmp_cstr: "ucstr m p xs \<Longrightarrow> ucstr m q ys \<Longrightarrow> \<exists>r. ustrcmp m p q = Some r \<and> (r = 0 \<longleftrightarrow> xs = ys)"
proof (induction xs arbitrary: p q ys)
  case Nil
  then show ?case by (cases ys) (auto simp: ustrcmp.simps [of m p q] uint_0_iff)
next
  case (Cons x xs)
  then show ?case by (cases ys) (auto simp: ustrcmp.simps [of m p q] uint_0_iff word_uint_eq_iff [symmetric])
qed

lemma strchr_cstr:
  "ucstr m a xs \<Longrightarrow> strchr m a c = Some (if c \<in> set xs then a + of_nat (length (takeWhile (\<lambda>x. x \<noteq> c) xs)) else 0)"
proof (induction xs arbitrary: a)
  case Nil
  then show ?case by (simp add: strchr.simps [of m a])
next
  case (Cons x xs)
  then show ?case by (auto simp: strchr.simps [of m a] add.assoc)
qed

section \<open>Numbers\<close>

lemma digit_loop_length: "x < 10 ^ Suc k \<Longrightarrow> length (digit_loop ds x 10) \<le> Suc k"
proof (induction k arbitrary: x)
  case 0
  then show ?case by (subst digit_loop.simps) simp
next
  case (Suc k)
  then have "x div 10 < 10 ^ Suc k" by (simp add: less_mult_imp_div_less mult.commute)
  with Suc.IH show ?case by (subst digit_loop.simps) simp
qed

lemma digit_loop_length16: "x < 16 ^ Suc k \<Longrightarrow> length (digit_loop ds x 16) \<le> Suc k"
proof (induction k arbitrary: x)
  case 0
  then show ?case by (subst digit_loop.simps) simp
next
  case (Suc k)
  then have "x div 16 < 16 ^ Suc k" by (simp add: less_mult_imp_div_less mult.commute)
  with Suc.IH show ?case by (subst digit_loop.simps) simp
qed

lemma unat_udigits: "r < 10 \<Longrightarrow> unat (udigits ! r) = r + 0x30"
  by (simp add: udigits_def nth_Cons' split: if_splits)

lemma digit_loop_digits: "d \<in> set (digit_loop udigits x 10) \<Longrightarrow> 0x30 \<le> d \<and> d \<le> 0x39"
proof (induction udigits x "10 :: nat" arbitrary: d rule: digit_loop.induct)
  case (1 x)
  have "0x30 \<le> udigits ! (x mod 10) \<and> udigits ! (x mod 10) \<le> 0x39"
    using unat_udigits [of "x mod 10"] by (simp add: word_le_nat_alt)
  with 1 show ?case by (subst (asm) digit_loop.simps) (auto split: if_splits)
qed

definition dec :: "uchar \<Rightarrow> uint \<Rightarrow> uint" where
  "dec d n = n * 10 + ucast d - 0x30"

lemma digit_loop_value: "fold dec (rev (digit_loop udigits x 10)) 0 = of_nat x"
proof (induction udigits x "10 :: nat" rule: digit_loop.induct)
  case (1 x)
  have d: "ucast (udigits ! (x mod 10)) = (of_nat (x mod 10) + 0x30 :: uint)"
    using unat_udigits [of "x mod 10"] by (metis (no_types) mod_less_divisor of_nat_add of_nat_numeral of_nat_unat zero_less_numeral)
  have "(of_nat (x div 10) * 10 + of_nat (x mod 10) :: uint) = of_nat (x div 10 * 10 + x mod 10)"
    by (simp only: of_nat_add of_nat_mult of_nat_numeral)
  also have "\<dots> = of_nat x" by (simp only: div_mult_mod_eq)
  finally have x: "(of_nat (x div 10) * 10 + of_nat (x mod 10) :: uint) = of_nat x" .
  show ?case
  proof (cases "x div 10 = 0")
    case True
    then show ?thesis using x d by (subst digit_loop.simps) (simp add: dec_def)
  next
    case False
    with 1 have "fold dec (rev (digit_loop udigits (x div 10) 10)) 0 = of_nat (x div 10)" by simp
    then show ?thesis using False x d by (subst digit_loop.simps) (simp add: dec_def)
  qed
qed

lemma atoi_loop_cstr:
  "ucstr m a xs \<Longrightarrow> (\<And>d. d \<in> set xs \<Longrightarrow> 0x30 \<le> d \<and> d \<le> 0x39) \<Longrightarrow> atoi_loop m a n = Some (fold dec xs n)"
proof (induction xs arbitrary: a n)
  case Nil
  then show ?case by (simp add: atoi_loop.simps [of m a])
next
  case (Cons x xs)
  then show ?case by (simp add: atoi_loop.simps [of m a] dec_def)
qed

section \<open>Printing and reading back\<close>

lemma printint_nonneg: "0 \<le> sint (x :: uint) \<Longrightarrow> printint_chars ds (sint x) base True = rev (digit_loop ds (unat x) base)"
  by (simp add: printint_chars_def)

lemma printint_neg: "sint (x :: uint) < 0 \<Longrightarrow> printint_chars ds (sint x) base True = 0x2d # rev (digit_loop ds (unat (- x)) base)"
  by (simp add: printint_chars_def)

lemma printint_unsigned: "printint_chars ds (sint (x :: uint)) base False = rev (digit_loop ds (unat x) base)"
  by (simp add: printint_chars_def)

lemma digit_length_word: "length (digit_loop ds (unat (x :: uint)) 10) \<le> 10" "length (digit_loop ds (unat x) 16) \<le> 8"
  using digit_loop_length [of "unat x" 9] digit_loop_length16 [of "unat x" 7] unsigned_less [of x, where 'a = nat] by simp_all

lemma atoi_digits: "ucstr m a (rev (digit_loop udigits (unat x) 10)) \<Longrightarrow> atoi m a = Some x"
  using atoi_loop_cstr [of m a "rev (digit_loop udigits (unat x) 10)" 0] digit_loop_digits digit_loop_value [of "unat x"]
  by (simp add: atoi_def)

lemma forM_uputc:
  assumes "\<And>bs s. u_write sys fd bs s = Ok (int (length bs)) (out bs s)" and "\<And>s. out [] s = s"
    and "\<And>b bs s. out bs (out [b] s) = out (b # bs) s"
  shows "forM bs (uputc sys fd) s = Ok () (out bs s)"
  using assms by (induction bs arbitrary: s) (simp_all add: uputc_def seq_apply)

text \<open>
  C21 (decimal round trip). On a descriptor to which every \<open>write\<close> goes through, \<open>printint\<close> prints a number with at most 11
  characters, and 8 in base 16, so the array \<open>buf[16]\<close> is never overrun.  What it prints in base 10, stored as a C string, is read back by \<open>atoi\<close>
  as the same number; for a negative number \<open>atoi\<close> reads the number behind the sign.
\<close>

theorem printint_atoi:
  assumes "\<And>bs s. u_write sys fd bs s = Ok (int (length bs)) (out bs s)" and "\<And>s. out [] s = s"
    and "\<And>b bs s. out bs (out [b] s) = out (b # bs) s"
  shows "\<exists>cs hs. uprintint sys fd (sint x) 10 True s = Ok () (out cs s) \<and> length cs \<le> 11
    \<and> uprintint sys fd (sint x) 16 False s = Ok () (out hs s) \<and> length hs \<le> 8
    \<and> (\<forall>m a. ucstr m a cs \<longrightarrow> (if sint x < 0 then m a = 0x2d \<and> atoi m (a + 1) = Some (- x) else atoi m a = Some x))"
proof (intro exI conjI allI impI)
  let ?cs = "printint_chars udigits (sint x) 10 True" and ?hs = "printint_chars udigits (sint x) 16 False"
  show "uprintint sys fd (sint x) 10 True s = Ok () (out ?cs s)" "uprintint sys fd (sint x) 16 False s = Ok () (out ?hs s)"
    unfolding uprintint_def by (rule forM_uputc [OF assms])+
  show "length ?cs \<le> 11" "length ?hs \<le> 8"
    using digit_length_word [of udigits x] digit_length_word [of udigits "- x"]
    by (cases "sint x < 0"; simp add: printint_neg printint_nonneg printint_unsigned)+
  show "if sint x < 0 then m a = 0x2d \<and> atoi m (a + 1) = Some (- x) else atoi m a = Some x" if "ucstr m a ?cs" for m a
    using that atoi_digits [of m a x] atoi_digits [of m "a + 1" "- x"]
    by (cases "sint x < 0") (simp_all add: printint_neg printint_nonneg)
qed

text \<open>A process whose output is collected, and whose input comes in pieces.\<close>

record uio = umach +
  uin :: "uchar list list"
  uout :: "uchar list"

definition ex_usys :: "uio usys" where
  "ex_usys = \<lparr>u_read = (\<lambda>fd n s. case uin s of [] \<Rightarrow> Ok (0, []) s
       | bs # rest \<Rightarrow> Ok (int (length (take n bs)), take n bs) (s\<lparr>uin := (if drop n bs = [] then rest else drop n bs # rest)\<rparr>)),
     u_write = (\<lambda>fd bs s. Ok (int (length bs)) (s\<lparr>uout := uout s @ bs\<rparr>)),
     u_open = (\<lambda>n f s. Ok 3 s), u_close = (\<lambda>fd s. Ok 0 s),
     u_fstat = (\<lambda>fd s. Ok (- 1, \<lparr>st_type = 0, st_dev = 0, st_ino = 0, st_nlink = 0, st_size = 0\<rparr>) s),
     u_exit = (\<lambda>s. Stop (Swtch s))\<rparr>"

definition ex_uio :: uio where
  "ex_uio = \<lparr>umem = (\<lambda>_. 0), uin = [], uout = []\<rparr>"

theorem printint_atoi_witness:
  "\<exists>cs. uprintint ex_usys 1 (sint (- 42 :: uint)) 10 True ex_uio = Ok () (ex_uio\<lparr>uout := cs\<rparr>) \<and> length cs \<le> 11
    \<and> (\<forall>m a. ucstr m a cs \<longrightarrow> m a = 0x2d \<and> atoi m (a + 1) = Some 42)"
  using printint_atoi [of ex_usys 1 "\<lambda>bs s. s\<lparr>uout := uout s @ bs\<rparr>" "- 42" ex_uio]
  by (auto simp: ex_usys_def ex_uio_def)

end
