(* ===== verification/Grep.thy ===== *)
theory Grep
  imports Ulib
begin

text \<open>
  grep.c: the matcher for patterns with \<open>^ . * $\<close>, shown equivalent to a declarative meaning of patterns, and the loop that reads
  a file into a buffer and prints the lines that match.  Patterns and texts are C strings without their final zero.
\<close>

section \<open>The matcher\<close>

function matchhere :: "uchar list \<Rightarrow> uchar list \<Rightarrow> bool"
  and matchstar :: "uchar \<Rightarrow> uchar list \<Rightarrow> uchar list \<Rightarrow> bool" where
  "matchhere re tx =
     (case re of
        [] \<Rightarrow> True
      | c # re1 \<Rightarrow>
          if re1 \<noteq> [] \<and> hd re1 = 0x2a then matchstar c (tl re1) tx
          else if c = 0x24 \<and> re1 = [] then tx = []
          else if tx \<noteq> [] \<and> (c = 0x2e \<or> c = hd tx) then matchhere re1 (tl tx)
          else False)"
| "matchstar c re tx =
     (if matchhere re tx then True
      else if tx \<noteq> [] \<and> (hd tx = c \<or> c = 0x2e) then matchstar c re (tl tx)
      else False)"
  by pat_completeness auto

termination
  by (relation "measures [\<lambda>x. case x of Inl (re, _) \<Rightarrow> 2 * length re | Inr (_, re, _) \<Rightarrow> Suc (2 * length re),
      \<lambda>x. case x of Inl (_, tx) \<Rightarrow> length tx | Inr (_, _, tx) \<Rightarrow> length tx]")
    (auto simp: neq_Nil_conv)

declare matchhere.simps [simp del] matchstar.simps [simp del]

fun match_from :: "uchar list \<Rightarrow> uchar list \<Rightarrow> bool" where
  "match_from re [] = matchhere re []"
| "match_from re (x # tx) = (if matchhere re (x # tx) then True else match_from re tx)"

definition match :: "uchar list \<Rightarrow> uchar list \<Rightarrow> bool" where
  "match re tx = (if re \<noteq> [] \<and> hd re = 0x5e then matchhere (tl re) tx else match_from re tx)"

section \<open>The loop over a file\<close>

text \<open>
  The lines in the buffer from \<open>p\<close> on: each newline is overwritten by a zero, and restored only when the line matches; the results
  are the memory, the position behind the last newline, and what is written.
\<close>

partial_function (option) grep_lines :: "uchar list \<Rightarrow> memory \<Rightarrow> addr \<Rightarrow> (memory \<times> addr \<times> uchar list list) option" where
  "grep_lines re m p =
     Option.bind (strchr m p 0x0a) (\<lambda>q.
     if q = 0 then Some (m, p, [])
     else
       let m1 = m(q := 0) in
       Option.bind (cstring m1 p) (\<lambda>line.
       if match re line then
         let m2 = m1(q := 0x0a) in
         Option.bind (grep_lines re m2 (q + 1)) (\<lambda>(m3, p3, out).
         Some (m3, p3, read_bytes m2 p (unat (q + 1 - p)) # out))
       else grep_lines re m1 (q + 1)))"

text \<open>The loop reads until the end of the file; \<open>fuel\<close> bounds the number of calls of \<open>read\<close>.\<close>

fun grep_loop :: "'e umach_scheme usys \<Rightarrow> addr \<Rightarrow> uchar list \<Rightarrow> int \<Rightarrow> nat \<Rightarrow> nat \<Rightarrow> ('e umach_scheme, unit) kop" where
  "grep_loop sys buf re fd 0 m = spin"
| "grep_loop sys buf re fd (Suc fuel) m =
     bnd (u_read sys fd (1024 - m)) (\<lambda>(n, bs).
     if n \<le> 0 then ret ()
     else
       seq (modify (\<lambda>s. s\<lparr>umem := write_bytes (buf + of_nat m) bs (umem s)\<rparr>))
       (bnd (gets (\<lambda>s. grep_lines re (umem s) buf)) (\<lambda>r.
        case r of
          None \<Rightarrow> spin
        | Some (mm, p, outs) \<Rightarrow>
            seq (modify (\<lambda>s. s\<lparr>umem := mm\<rparr>))
            (seq (forM outs (\<lambda>l. seq (u_write sys 1 l) (ret ())))
            (let m = (if p = buf then 0 else m + nat n)
             in if 0 < m then
                  let m = m - unat (p - buf)
                  in seq (modify (\<lambda>s. s\<lparr>umem := umemmove buf p (int m) (umem s)\<rparr>))
                         (grep_loop sys buf re fd fuel m)
                else grep_loop sys buf re fd fuel m)))))"

definition grep :: "'e umach_scheme usys \<Rightarrow> addr \<Rightarrow> uchar list \<Rightarrow> int \<Rightarrow> nat \<Rightarrow> ('e umach_scheme, unit) kop" where
  "grep sys buf re fd fuel = grep_loop sys buf re fd fuel 0"

section \<open>The meaning of a pattern\<close>

datatype atom = Chr uchar | Star uchar | End

fun atoms :: "uchar list \<Rightarrow> atom list" where
  "atoms [] = []"
| "atoms [c] = (if c = 0x24 then [End] else [Chr c])"
| "atoms (c # d # re) = (if d = 0x2a then Star c # atoms re else Chr c # atoms (d # re))"

definition chr_ok :: "uchar \<Rightarrow> uchar \<Rightarrow> bool" where
  "chr_ok c x \<longleftrightarrow> c = 0x2e \<or> c = x"

text \<open>\<open>fits as v w\<close>: the piece \<open>v\<close> is an instance of the pattern when \<open>w\<close> follows it.\<close>

inductive fits :: "atom list \<Rightarrow> uchar list \<Rightarrow> uchar list \<Rightarrow> bool" where
  fits_Nil: "fits [] [] w"
| fits_Chr: "chr_ok c x \<Longrightarrow> fits as v w \<Longrightarrow> fits (Chr c # as) (x # v) w"
| fits_Star: "\<forall>x \<in> set u. chr_ok c x \<Longrightarrow> fits as v w \<Longrightarrow> fits (Star c # as) (u @ v) w"
| fits_End: "fits [End] [] []"

inductive_cases fits_NilE: "fits [] v w"
inductive_cases fits_ChrE: "fits (Chr c # as) v w"
inductive_cases fits_StarE: "fits (Star c # as) v w"
inductive_cases fits_EndE: "fits (End # as) v w"

lemmas fits_elims = fits_NilE fits_ChrE fits_StarE fits_EndE

definition here :: "atom list \<Rightarrow> uchar list \<Rightarrow> bool" where
  "here as tx \<longleftrightarrow> (\<exists>v w. tx = v @ w \<and> fits as v w)"

lemma here_Nil [simp]: "here [] tx"
  unfolding here_def by (auto intro: fits_Nil elim!: fits_elims)

lemma here_End [simp]: "here [End] tx \<longleftrightarrow> tx = []"
  unfolding here_def by (auto intro: fits_End elim!: fits_elims)

lemma here_Chr: "here (Chr c # as) tx \<longleftrightarrow> (\<exists>x t. tx = x # t \<and> chr_ok c x \<and> here as t)"
proof
  assume "\<exists>x t. tx = x # t \<and> chr_ok c x \<and> here as t"
  then obtain x v w where v: "tx = (x # v) @ w" "chr_ok c x" "fits as v w" by (auto simp: here_def)
  show "here (Chr c # as) tx" unfolding here_def
    by (rule exI [of _ "x # v"], rule exI [of _ w], rule conjI [OF v(1) fits_Chr [OF v(2,3)]])
next
  assume "here (Chr c # as) tx"
  then obtain x v w where "tx = x # v @ w" "chr_ok c x" "fits as v w" by (auto simp: here_def elim!: fits_elims)
  then show "\<exists>x t. tx = x # t \<and> chr_ok c x \<and> here as t" by (auto simp: here_def)
qed

lemma here_Star: "here (Star c # as) tx \<longleftrightarrow> here as tx \<or> (\<exists>x t. tx = x # t \<and> chr_ok c x \<and> here (Star c # as) t)"
proof
  assume "here (Star c # as) tx"
  then obtain u v w where t: "tx = u @ v @ w" "\<forall>x \<in> set u. chr_ok c x" "fits as v w" by (auto simp: here_def elim!: fits_elims)
  show "here as tx \<or> (\<exists>x t. tx = x # t \<and> chr_ok c x \<and> here (Star c # as) t)"
  proof (cases u)
    case Nil
    then show ?thesis using t by (auto simp: here_def)
  next
    case (Cons x u')
    then have "here (Star c # as) (u' @ v @ w)"
      using t fits_Star [of u' c as v w] unfolding here_def by (metis append.assoc list.set_intros(2))
    then show ?thesis using Cons t by auto
  qed
next
  assume "here as tx \<or> (\<exists>x t. tx = x # t \<and> chr_ok c x \<and> here (Star c # as) t)"
  then show "here (Star c # as) tx"
  proof
    assume "here as tx"
    then show ?thesis using fits_Star [of "[]" c as] by (auto simp: here_def)
  next
    assume "\<exists>x t. tx = x # t \<and> chr_ok c x \<and> here (Star c # as) t"
    then obtain x u v w where "tx = x # u @ v @ w" "chr_ok c x" "\<forall>x \<in> set u. chr_ok c x" "fits as v w"
      by (auto simp: here_def elim!: fits_elims)
    moreover from this have "fits (Star c # as) ((x # u) @ v) w" by (intro fits_Star) auto
    ultimately show ?thesis unfolding here_def by (metis append.assoc append_Cons)
  qed
qed

lemma matcher_here: "matchhere re tx = here (atoms re) tx" "matchstar c re tx = here (Star c # atoms re) tx"
proof (induction re tx and c re tx rule: matchhere_matchstar.induct)
  case (1 re tx)
  show ?case
  proof (cases re rule: atoms.cases)
    case 1
    then show ?thesis by (subst matchhere.simps) simp
  next
    case (2 c)
    then show ?thesis using "1.IH" by (subst matchhere.simps [of re tx]) (cases tx; auto simp: here_Chr chr_ok_def)
  next
    case (3 c d re')
    then show ?thesis using "1.IH" by (subst matchhere.simps [of re tx]) (cases tx; auto simp: here_Chr chr_ok_def)
  qed
next
  case (2 c re tx)
  show ?case
    using 2 by (subst matchstar.simps [of c re tx], subst here_Star) (cases tx; auto simp: chr_ok_def)
qed

lemma match_from_here: "match_from re tx \<longleftrightarrow> (\<exists>u t. tx = u @ t \<and> here (atoms re) t)"
proof (induction tx)
  case Nil
  then show ?case by (simp add: matcher_here)
next
  case (Cons x tx)
  have "(\<exists>u t. x # tx = u @ t \<and> here (atoms re) t) \<longleftrightarrow> here (atoms re) (x # tx) \<or> (\<exists>u t. tx = u @ t \<and> here (atoms re) t)"
    by (metis append_Cons append_Nil neq_Nil_conv list.inject)
  with Cons show ?case by (simp add: matcher_here)
qed

text \<open>
  C19 (pattern matching). The recursive matcher decides the declarative meaning of a pattern: some piece of the text, at its start when the
  pattern begins with \<open>^\<close>, is an instance of the pattern, where \<open>.\<close> stands for any character, \<open>c*\<close> for any number of
  characters that \<open>c\<close> stands for, and a final \<open>$\<close> for the end of the text.
\<close>

theorem match_meaning:
  "match re tx \<longleftrightarrow>
     (\<exists>u v w. tx = u @ v @ w \<and>
       (if re \<noteq> [] \<and> hd re = 0x5e then u = [] \<and> fits (atoms (tl re)) v w else fits (atoms re) v w))"
proof (cases "re \<noteq> [] \<and> hd re = 0x5e")
  case True
  then show ?thesis by (simp add: match_def matcher_here here_def)
next
  case False
  then show ?thesis unfolding match_def match_from_here here_def if_not_P [OF False] by auto
qed

section \<open>A file of complete lines\<close>

lemma ucstr_append: "ucstr m a (xs @ ys) \<longleftrightarrow> (\<forall>i < length xs. m (a + of_nat i) = xs ! i \<and> xs ! i \<noteq> 0) \<and> ucstr m (a + of_nat (length xs)) ys"
  by (induction xs arbitrary: a) (auto simp: All_less_Suc2 add.assoc)

lemma of_nat_addr_eq: "i < 2 ^ 32 \<Longrightarrow> j < 2 ^ 32 \<Longrightarrow> (of_nat i :: addr) = of_nat j \<longleftrightarrow> i = j"
  by (simp add: word_unat_eq_iff unat_of_nat)

lemma addr_offset_eq: "i < 2 ^ 32 \<Longrightarrow> j < 2 ^ 32 \<Longrightarrow> (a :: addr) + of_nat i = a + of_nat j \<longleftrightarrow> i = j"
  by (simp add: of_nat_addr_eq del: of_nat_eq_iff)

lemma ucstr_cong: "ucstr m a xs \<Longrightarrow> (\<And>i. i \<le> length xs \<Longrightarrow> m' (a + of_nat i) = m (a + of_nat i)) \<Longrightarrow> ucstr m' a xs"
  by (simp add: ucstr_def)

lemma ucstr_cut:
  assumes "ucstr m a (xs @ y # ys)" and "length xs < 2 ^ 32"
  shows "ucstr (m(a + of_nat (length xs) := 0)) a xs"
proof -
  have "a + of_nat i \<noteq> a + of_nat (length xs)" if "i < length xs" for i
    using that assms(2) by (subst addr_offset_eq) simp_all
  then show ?thesis using assms(1) by (auto simp: ucstr_append ucstr_def [of _ a xs])
qed

lemma ucstr_rest:
  assumes "ucstr m a (xs @ y # ys)" and "length xs + length ys + 1 < 2 ^ 32"
  shows "ucstr (m(a + of_nat (length xs) := z)) (a + of_nat (length xs) + 1) ys"
proof (rule ucstr_cong)
  show "ucstr m (a + of_nat (length xs) + 1) ys" using assms(1) by (simp add: ucstr_append)
  fix i assume "i \<le> length ys"
  then have "a + of_nat (length xs + Suc i) \<noteq> a + of_nat (length xs)" using assms(2) by (subst addr_offset_eq) simp_all
  then show "(m(a + of_nat (length xs) := z)) (a + of_nat (length xs) + 1 + of_nat i) = m (a + of_nat (length xs) + 1 + of_nat i)"
    by (simp add: add_ac)
qed

definition unlines :: "uchar list list \<Rightarrow> uchar list" where
  "unlines ls = concat (map (\<lambda>l. l @ [0x0a]) ls)"

lemma unlines_simps [simp]: "unlines [] = []" "unlines (l # ls) = l @ 0x0a # unlines ls"
  by (simp_all add: unlines_def)

definition grep_out :: "uchar list \<Rightarrow> uchar list list \<Rightarrow> uchar list list" where
  "grep_out re ls = map (\<lambda>l. l @ [0x0a]) (filter (match re) ls)"

lemma read_line:
  assumes "ucstr m p (l @ x # ys)" and "length l < 2 ^ 32 - 1"
  shows "read_bytes (m(p + of_nat (length l) := x)) p (unat (p + of_nat (length l) + 1 - p)) = l @ [x]"
proof -
  have "unat (of_nat (length l) + 1 :: addr) = Suc (length l)"
    using assms(2) by (simp add: unat_word_ariths unat_of_nat)
  then have "unat (p + of_nat (length l) + 1 - p) = Suc (length l)" by (simp add: add.assoc)
  moreover have "read_bytes (m(p + of_nat (length l) := x)) p (Suc (length l)) = l @ [x]"
  proof (rule nth_equalityI)
    fix i assume i: "i < length (read_bytes (m(p + of_nat (length l) := x)) p (Suc (length l)))"
    then have "p + of_nat i = p + of_nat (length l) \<longleftrightarrow> i = length l" using assms(2) by (intro addr_offset_eq) auto
    then show "read_bytes (m(p + of_nat (length l) := x)) p (Suc (length l)) ! i = (l @ [x]) ! i"
      using i assms(1) by (auto simp: ucstr_append nth_append)
  qed simp
  ultimately show ?thesis by simp
qed

lemma grep_lines_unlines:
  "ucstr m p (unlines ls) \<Longrightarrow> \<forall>l \<in> set ls. 0x0a \<notin> set l \<Longrightarrow> unat p + length (unlines ls) < 2 ^ 32 \<Longrightarrow> p \<noteq> 0 \<Longrightarrow>
   \<exists>m'. grep_lines re m p = Some (m', p + of_nat (length (unlines ls)), grep_out re ls)"
proof (induction ls arbitrary: m p)
  case Nil
  then show ?case using strchr_cstr [of m p "[]" "0x0a"] by (simp add: grep_lines.simps [of re m p] grep_out_def)
next
  case (Cons l ls)
  let ?q = "p + of_nat (length l)"
  have c: "ucstr m p (l @ 0x0a # unlines ls)" using Cons.prems(1) by simp
  have len: "unat p + length l + length (unlines ls) + 1 < 2 ^ 32" using Cons.prems(3) by simp
  have l: "0x0a \<notin> set l" using Cons.prems(2) by simp
  then have "takeWhile (\<lambda>x. x \<noteq> 0x0a) (l @ 0x0a # unlines ls) = l" by (subst takeWhile_append2) auto
  then have q: "strchr m p 0x0a = Some ?q" using strchr_cstr [OF c, of "0x0a"] by simp
  have uq: "unat ?q = unat p + length l" using len by (simp add: unat_word_ariths unat_of_nat)
  then have uq1: "unat (?q + 1) = unat p + length l + 1" using len by (simp add: unat_word_ariths)
  have p0: "unat p \<noteq> 0" using Cons.prems(4) by (simp add: unat_eq_zero)
  have q0: "?q \<noteq> 0" "?q + 1 \<noteq> 0" using uq uq1 p0 by (metis add_is_0 unat_0)+
  have line: "cstring (m(?q := 0)) p = Some l" using ucstr_cut [OF c] len by (intro cstring_cstr) simp
  have ih: "\<exists>m'. grep_lines re m1 (?q + 1) = Some (m', p + of_nat (length (unlines (l # ls))), grep_out re ls)"
    if "ucstr m1 (?q + 1) (unlines ls)" for m1
    using Cons.IH [OF that _ _ q0(2)] Cons.prems(2) uq1 len by (auto simp: add_ac)
  have r: "ucstr (m(?q := z)) (?q + 1) (unlines ls)" for z using ucstr_rest [OF c] len by simp
  show ?case
  proof (cases "match re l")
    case True
    from ih [OF r [of "0x0a"]] obtain m' where
      "grep_lines re (m(?q := 0x0a)) (?q + 1) = Some (m', p + of_nat (length (unlines (l # ls))), grep_out re ls)" by blast
    then show ?thesis using True q q0(1) line read_line [OF c] len by (simp add: grep_lines.simps [of re m p] grep_out_def)
  next
    case False
    from ih [OF r [of 0]] obtain m' where
      "grep_lines re (m(?q := 0)) (?q + 1) = Some (m', p + of_nat (length (unlines (l # ls))), grep_out re ls)" by blast
    then show ?thesis using False q q0(1) line by (simp add: grep_lines.simps [of re m p] grep_out_def)
  qed
qed

lemma write_bytes_ucstr:
  assumes "unat a + length bs < 2 ^ 32" and "0 \<notin> set bs" and "m (a + of_nat (length bs)) = 0"
  shows "ucstr (write_bytes a bs m) a bs"
  unfolding ucstr_def
proof (intro conjI allI impI)
  fix i assume "i < length bs"
  then show "write_bytes a bs m (a + of_nat i) = bs ! i" "bs ! i \<noteq> 0"
    using assms(1,2) by (simp_all add: write_bytes_eq unat_of_nat) (metis nth_mem)
next
  show "write_bytes a bs m (a + of_nat (length bs)) = 0"
    using assms(1,3) by (simp add: write_bytes_eq unat_of_nat)
qed

lemma forM_write:
  assumes "\<And>l t. u_write sys fd l t = Ok (int (length l)) (out l t)"
  shows "forM ls (\<lambda>l. seq (u_write sys fd l) (ret ())) s = Ok () (fold out ls s)"
  using assms by (induction ls arbitrary: s) (simp_all add: seq_apply)


definition ex_grep :: uio where
  "ex_grep = ex_uio\<lparr>uin := [[0x66, 0x6f, 0x6f, 0x0a, 0x62, 0x61, 0x72, 0x0a]]\<rparr>"


lemma grep_lines_one:
  assumes c: "ucstr m p (l @ 0x0a # r)" and l: "0x0a \<notin> set l" "0x0a \<notin> set r" "match re l"
    and len: "unat p + length l + length r + 1 < 2 ^ 32" and "p \<noteq> 0"
  shows "grep_lines re m p = Some (m, p + of_nat (length l) + 1, [l @ [0x0a]])"
proof -
  let ?q = "p + of_nat (length l)"
  have "takeWhile (\<lambda>x. x \<noteq> 0x0a) (l @ 0x0a # r) = l" using l(1) by (subst takeWhile_append2) auto
  then have q: "strchr m p 0x0a = Some ?q" using strchr_cstr [OF c, of "0x0a"] by simp
  have uq: "unat ?q = unat p + length l" using len by (simp add: unat_word_ariths unat_of_nat)
  have q0: "?q \<noteq> 0" using uq assms(6) by (metis add_is_0 unat_0 unat_eq_zero)
  have line: "cstring (m(?q := 0)) p = Some l" using ucstr_cut [OF c] len by (intro cstring_cstr) simp
  have mq: "m(?q := 0x0a) = m" using c by (auto simp: ucstr_append)
  have "strchr m (?q + 1) 0x0a = Some 0" using strchr_cstr [of m "?q + 1" r "0x0a"] c l(2) by (simp add: ucstr_append)
  then show ?thesis using l(3) q q0 line mq read_line [OF c] len
    by (simp add: grep_lines.simps [of re m p] grep_lines.simps [of re m "?q + 1"])
qed

text \<open>
  The buffer is not terminated behind the bytes that were read.  When a later \<open>read\<close> brings less than a line, the search for a newline runs
  into bytes of earlier lines: for the input \<open>aaaa\<close>, newline, \<open>b\<close>, \<open>c\<close> and the pattern \<open>a\<close> the line \<open>bcaa\<close>, which the
  file does not have, is written.
\<close>

lemma grep_stale_line:
  "\<exists>t. grep ex_usys 0x1000 [0x61] 0 3 (ex_uio\<lparr>uin := [[0x61, 0x61, 0x61, 0x61, 0x0a, 0x62], [0x63]]\<rparr>) = Ok () t
     \<and> uout t = [0x61, 0x61, 0x61, 0x61, 0x0a, 0x62, 0x63, 0x61, 0x61, 0x0a]"
proof -
  let ?m0 = "write_bytes 0x1000 [0x61, 0x61, 0x61, 0x61, 0x0a, 0x62] (\<lambda>_. 0)"
  let ?m1 = "write_bytes 0x1001 [0x63] (umemmove 0x1000 0x1005 1 ?m0)"
  have m: "match [0x61] [0x61, 0x61, 0x61, 0x61]" "match [0x61] [0x62, 0x63, 0x61, 0x61]" by code_simp+
  have a: "grep_lines [0x61] ?m0 0x1000 = Some (?m0, 0x1005, [[0x61, 0x61, 0x61, 0x61, 0x0a]])"
    using m by (subst grep_lines_one [of _ _ "[0x61, 0x61, 0x61, 0x61]" "[0x62]"]) simp_all
  have b: "grep_lines [0x61] ?m1 0x1000 = Some (?m1, 0x1005, [[0x62, 0x63, 0x61, 0x61, 0x0a]])"
    using m by (subst grep_lines_one [of _ _ "[0x62, 0x63, 0x61, 0x61]" "[0x62]"]) (simp_all add: umemmove_def)
  show ?thesis using a b by (simp add: grep_def ex_usys_def ex_uio_def numeral_3_eq_3 seq_apply)
qed

end
