(* ===== verification/Spec2Isabelle.thy ===== *)
theory Spec2Isabelle
  imports Recovery Pipes Threadq Pagetable Sysargs Interrupts Grep
begin

text \<open>
  A verification library for the xv6 kernel of this repository.

  Theories: \<open>Prelude\<close> holds the result monad and its Hoare rules, \<open>Layout\<close> the constants and the
  address arithmetic of \<open>param.h\<close>, \<open>memlayout.h\<close> and \<open>mmu.h\<close>, \<open>Spinlock\<close> the locks of \<open>spinlock.c\<close>,
  \<open>Cstring\<close> the byte routines of \<open>string.c\<close>, \<open>Kalloc\<close> the page allocator of \<open>kalloc.c\<close>.
\<close>

end
